(* ===== verification/Prelude.thy ===== *)
theory Prelude
  imports Main "HOL-Library.Word" "HOL-Library.Sublist"
begin

text \<open>
  Shared vocabulary of the development: the machine types of the Rust source, byte strings,
  the result and poll types, the panicking reader monad in which the binary decoder is written,
  splitting of a byte string at a separator (Rust's \<open>split\<close>), and little-endian integers.
  Every component imports this theory; the collections \<open>broker_simps\<close> and \<open>panic_simps\<close>
  gather the equations that component proofs rewrite with.
\<close>

named_theorems broker_simps \<open>equations that evaluate the operations of the model\<close>
named_theorems frame_simps \<open>what an operation leaves unchanged\<close>
named_theorems panic_simps \<open>equations of the reader monad\<close>

section \<open>Machine types\<close>

type_synonym u8 = "8 word"
type_synonym u16 = "16 word"
type_synonym u32 = "32 word"
type_synonym u64 = "64 word"
type_synonym bytes = "u8 list"

text \<open>Byte literals: \<open>ascii ''abc''\<close> is Rust's \<^verbatim>\<open>b"abc"\<close>.\<close>

definition ascii :: "string \<Rightarrow> bytes" where
  "ascii s = map of_char s"

lemma ascii_Nil [simp]: "ascii [] = []"
  by (simp add: ascii_def)

lemma ascii_Cons [simp]: "ascii (c # s) = of_char c # ascii s"
  by (simp add: ascii_def)

lemma length_ascii [simp]: "length (ascii s) = length s"
  by (simp add: ascii_def)

text \<open>A future that is polled: \<open>Pending\<close> leaves the task suspended in the \<open>.await\<close>.\<close>

datatype 'a poll = Pending | Ready 'a

section \<open>Lookups in association lists\<close>

lemma find_Some_set: "find P xs = Some x \<Longrightarrow> x \<in> set xs \<and> P x"
  by (auto simp: find_Some_iff)

lemma distinct_map_fst_eq:
  assumes "distinct (map fst xs)" and "(k, a) \<in> set xs" and "(k, b) \<in> set xs"
  shows "a = b"
  using assms by (metis map_of_is_SomeI option.inject)

section \<open>The reader monad\<close>

text \<open>
  \<open>('s, 'e, 'a) reader\<close> is a Rust function that reads from a mutable buffer of type \<open>'s\<close> and
  returns \<^verbatim>\<open>Result<'a, 'e>\<close>; the outer \<open>None\<close> is a panic. \<open>try_bind\<close> sequences two
  such computations through the \<open>?\<close> operator: an error returns at once and leaves the buffer
  where it was when the error was found.
\<close>

type_synonym ('s, 'e, 'a) reader = "'s \<Rightarrow> (('e + 'a) \<times> 's) option"

definition ok :: "'a \<Rightarrow> ('s, 'e, 'a) reader" where
  "ok x = (\<lambda>s. Some (Inr x, s))"

definition err :: "'e \<Rightarrow> ('s, 'e, 'a) reader" where
  "err e = (\<lambda>s. Some (Inl e, s))"

definition try_bind :: "('s, 'e, 'a) reader \<Rightarrow> ('a \<Rightarrow> ('s, 'e, 'b) reader) \<Rightarrow> ('s, 'e, 'b) reader" where
  "try_bind m f = (\<lambda>s. case m s of
     None \<Rightarrow> None
   | Some (Inl e, s') \<Rightarrow> Some (Inl e, s')
   | Some (Inr x, s') \<Rightarrow> f x s')"

text \<open>\<open>lift_get\<close> runs a buffer accessor, which cannot fail but may panic.\<close>

definition lift_get :: "('s \<Rightarrow> ('a \<times> 's) option) \<Rightarrow> ('s, 'e, 'a) reader" where
  "lift_get g = (\<lambda>s. map_option (\<lambda>(x, s'). (Inr x, s')) (g s))"

text \<open>\<open>lift_result\<close> applies \<open>?\<close> to a result that does not involve the buffer.\<close>

definition lift_result :: "'e + 'a \<Rightarrow> ('s, 'e, 'a) reader" where
  "lift_result r = (\<lambda>s. Some (r, s))"

text \<open>\<open>guard e b\<close> is \<^verbatim>\<open>if b { return Err(e) }\<close>; \<open>asks f\<close> reads a value off the buffer.\<close>

definition guard :: "'e \<Rightarrow> bool \<Rightarrow> ('s, 'e, unit) reader" where
  "guard e b = (\<lambda>s. Some (if b then Inl e else Inr (), s))"

definition asks :: "('s \<Rightarrow> 'a) \<Rightarrow> ('s, 'e, 'a) reader" where
  "asks f = (\<lambda>s. Some (Inr (f s), s))"

lemma reader_apply [panic_simps]:
  "ok x s = Some (Inr x, s)"
  "err e s = Some (Inl e, s)"
  "lift_result r s = Some (r, s)"
  "guard e b s = Some (if b then Inl e else Inr (), s)"
  "asks g s = Some (Inr (g s), s)"
  by (simp_all add: ok_def err_def lift_result_def guard_def asks_def)

lemma lift_get_apply [panic_simps]:
  "lift_get g s = (case g s of None \<Rightarrow> None | Some (x, s') \<Rightarrow> Some (Inr x, s'))"
  by (simp add: lift_get_def split: option.split)

lemma try_bind_apply [panic_simps]:
  "try_bind m f s = (case m s of
     None \<Rightarrow> None
   | Some (r, s') \<Rightarrow> (case r of Inl e \<Rightarrow> Some (Inl e, s') | Inr x \<Rightarrow> f x s'))"
  by (simp add: try_bind_def split: option.split prod.split sum.split)

section \<open>Splitting at a separator\<close>

text \<open>Rust's \<^verbatim>\<open>slice.split(|&b| b == c)\<close>: at least one segment, possibly empty.\<close>

fun split_on :: "'a \<Rightarrow> 'a list \<Rightarrow> 'a list list" where
  "split_on c [] = [[]]"
| "split_on c (x # xs) =
     (if x = c then [] # split_on c xs
      else (x # hd (split_on c xs)) # tl (split_on c xs))"

text \<open>The inverse: segments joined by the separator.\<close>

fun join_with :: "'a \<Rightarrow> 'a list list \<Rightarrow> 'a list" where
  "join_with c [] = []"
| "join_with c [s] = s"
| "join_with c (s # t # ss) = s @ c # join_with c (t # ss)"

lemma split_on_not_Nil [simp]: "split_on c xs \<noteq> []"
  by (cases xs) auto

lemma join_with_Cons: "ss \<noteq> [] \<Longrightarrow> join_with c (s # ss) = s @ c # join_with c ss"
  by (cases ss) auto

lemma join_with_head: "join_with c ((x # s) # ss) = x # join_with c (s # ss)"
  by (cases ss) auto

lemma join_split [simp]: "join_with c (split_on c xs) = xs"
proof (induction xs)
  case (Cons x xs)
  then show ?case
    by (cases "split_on c xs") (auto simp: join_with_Cons join_with_head)
qed simp

lemma split_on_inject: "split_on c xs = split_on c ys \<longleftrightarrow> xs = ys"
  by (metis join_split)

lemma split_on_segments: "s \<in> set (split_on c xs) \<Longrightarrow> c \<notin> set s"
proof (induction xs arbitrary: s)
  case (Cons x xs)
  then show ?case
    by (cases "split_on c xs") (auto split: if_splits)
qed simp

lemma set_split_on_subset: "s \<in> set (split_on c xs) \<Longrightarrow> set s \<subseteq> set xs"
proof (induction xs arbitrary: s)
  case (Cons x xs)
  then show ?case
    by (cases "split_on c xs") (fastforce split: if_splits)+
qed simp

lemma split_on_append_sep: "split_on c (xs @ c # ys) = split_on c xs @ split_on c ys"
proof (induction xs)
  case (Cons x xs)
  then show ?case
    by (cases "split_on c xs") auto
qed simp

lemma split_on_single: "c \<notin> set xs \<Longrightarrow> split_on c xs = [xs]"
  by (induction xs) auto

lemma split_join:
  "ss \<noteq> [] \<Longrightarrow> (\<forall>s\<in>set ss. c \<notin> set s) \<Longrightarrow> split_on c (join_with c ss) = ss"
proof (induction ss)
  case (Cons s ss)
  then show ?case
    by (cases "ss = []") (auto simp: join_with_Cons split_on_append_sep split_on_single)
qed simp

lemma set_join_with: "set (join_with c ss) \<subseteq> insert c (\<Union> (set ` set ss))"
  by (induction ss rule: induct_list012) auto

lemma mem_split_onE:
  assumes "x \<in> set xs" and "x \<noteq> c"
  obtains s where "s \<in> set (split_on c xs)" and "x \<in> set s"
  using assms
proof (induction xs arbitrary: thesis)
  case (Cons y ys)
  show ?case
  proof (cases "x = y")
    case True
    with Cons.prems(3) show ?thesis
      by (intro Cons.prems(1) [of "hd (split_on c (y # ys))"]) auto
  next
    case False
    with Cons.prems have "x \<in> set ys" by simp
    then obtain s where s: "s \<in> set (split_on c ys)" "x \<in> set s"
      using Cons.IH Cons.prems(3) by blast
    then obtain h t where ht: "split_on c ys = h # t" by (cases "split_on c ys") auto
    show ?thesis
    proof (cases "s = h")
      case True
      with s ht show ?thesis
        by (intro Cons.prems(1) [of "if y = c then h else y # h"]) auto
    next
      case False
      with s ht show ?thesis by (intro Cons.prems(1) [of s]) auto
    qed
  qed
qed simp

text \<open>A separator ends a segment: what follows a prefix that ends in it splits on its own.\<close>

lemma prefix_join_with:
  "ss \<noteq> [] \<Longrightarrow> ts \<noteq> [] \<Longrightarrow> join_with c (ss @ ts) = join_with c ss @ c # join_with c ts"
proof (induction ss)
  case (Cons s ss)
  then show ?case by (cases "ss = []") (auto simp: join_with_Cons)
qed simp

section \<open>Little-endian integers\<close>

text \<open>\<open>le_bytes k n\<close>: the \<open>k\<close> low bytes of \<open>n\<close>, least significant first; \<open>le_value\<close> reads them.\<close>

fun le_bytes :: "nat \<Rightarrow> nat \<Rightarrow> bytes" where
  "le_bytes 0 n = []"
| "le_bytes (Suc k) n = of_nat n # le_bytes k (n div 256)"

fun le_value :: "bytes \<Rightarrow> nat" where
  "le_value [] = 0"
| "le_value (b # bs) = unat b + 256 * le_value bs"

lemma length_le_bytes [simp]: "length (le_bytes k n) = k"
  by (induction k arbitrary: n) auto

lemma unat_of_nat_u8: "unat (of_nat n :: u8) = n mod 256"
  by (simp add: unat_of_nat)

lemma le_value_le_bytes: "le_value (le_bytes k n) = n mod 256 ^ k"
proof (induction k arbitrary: n)
  case (Suc k)
  have "n mod 256 ^ Suc k = n mod (256 * 256 ^ k)" by simp
  also have "\<dots> = 256 * (n div 256 mod 256 ^ k) + n mod 256"
    by (rule mod_mult2_eq)
  finally show ?case using Suc by (simp add: unat_of_nat_u8)
qed simp

lemma le_value_bound: "le_value bs < 256 ^ length bs"
proof (induction bs)
  case (Cons b bs)
  have "unat b < 256" using unsigned_less [of b] by simp
  moreover have "le_value bs + 1 \<le> 256 ^ length bs" using Cons by simp
  then have "256 * le_value bs + 256 \<le> 256 * 256 ^ length bs" by (simp add: algebra_simps)
  ultimately show ?case by simp
qed simp

lemma le_bytes_le_value: "length bs = k \<Longrightarrow> le_bytes k (le_value bs) = bs"
proof (induction bs arbitrary: k)
  case (Cons b bs)
  have b: "unat b < 256" using unsigned_less [of b] by simp
  have "(of_nat (unat b + 256 * le_value bs) :: u8) = b"
    using b by (simp only: word_unat_eq_iff unat_of_nat_u8) simp
  then show ?case using Cons b by (auto simp: div_add1_eq)
qed simp

end
