(* ===== verification/Utf8.thy ===== *)
theory Utf8
  imports Prelude
begin

text \<open>
  The part of Rust's standard library that the broker uses on byte strings: UTF-8 validation
  (\<^verbatim>\<open>str::from_utf8\<close>) and lossy conversion (\<^verbatim>\<open>String::from_utf8_lossy\<close>).
  A \<^verbatim>\<open>&str\<close> or \<^verbatim>\<open>String\<close> of the source is the list of its UTF-8 bytes in the model;
  \<open>is_utf8\<close> is the type invariant of such a value.
\<close>

section \<open>One scalar value\<close>

definition byte_at :: "bytes \<Rightarrow> nat \<Rightarrow> u8" where
  "byte_at bs i = (if i < length bs then bs ! i else 0)"

definition cont_byte :: "u8 \<Rightarrow> bool" where
  "cont_byte b \<longleftrightarrow> 0x80 \<le> b \<and> b \<le> 0xBF"

text \<open>Second bytes allowed after a three and a four byte lead (no overlong forms, no surrogates).\<close>

definition second_of_3 :: "u8 \<Rightarrow> u8 \<Rightarrow> bool" where
  "second_of_3 b c \<longleftrightarrow>
     (b = 0xE0 \<and> 0xA0 \<le> c \<and> c \<le> 0xBF) \<or>
     (0xE1 \<le> b \<and> b \<le> 0xEC \<and> cont_byte c) \<or>
     (b = 0xED \<and> 0x80 \<le> c \<and> c \<le> 0x9F) \<or>
     (0xEE \<le> b \<and> b \<le> 0xEF \<and> cont_byte c)"

definition second_of_4 :: "u8 \<Rightarrow> u8 \<Rightarrow> bool" where
  "second_of_4 b c \<longleftrightarrow>
     (b = 0xF0 \<and> 0x90 \<le> c \<and> c \<le> 0xBF) \<or>
     (0xF1 \<le> b \<and> b \<le> 0xF3 \<and> cont_byte c) \<or>
     (b = 0xF4 \<and> 0x80 \<le> c \<and> c \<le> 0x8F)"

text \<open>\<open>Valid n\<close>: the first \<open>n\<close> bytes encode one scalar; \<open>Invalid n\<close>: \<open>n\<close> bytes form one bad chunk.\<close>

datatype utf8_step = Valid nat | Invalid nat

definition utf8_next :: "bytes \<Rightarrow> utf8_step" where
  "utf8_next bs =
     (let b = byte_at bs 0 in
      if b < 0x80 then Valid 1
      else if 0xC2 \<le> b \<and> b \<le> 0xDF then
        (if cont_byte (byte_at bs 1) then Valid 2 else Invalid 1)
      else if 0xE0 \<le> b \<and> b \<le> 0xEF then
        (if \<not> second_of_3 b (byte_at bs 1) then Invalid 1
         else if \<not> cont_byte (byte_at bs 2) then Invalid 2 else Valid 3)
      else if 0xF0 \<le> b \<and> b \<le> 0xF4 then
        (if \<not> second_of_4 b (byte_at bs 1) then Invalid 1
         else if \<not> cont_byte (byte_at bs 2) then Invalid 2
         else if \<not> cont_byte (byte_at bs 3) then Invalid 3 else Valid 4)
      else Invalid 1)"

section \<open>Whole strings\<close>

fun is_utf8 :: "bytes \<Rightarrow> bool" where
  "is_utf8 [] = True"
| "is_utf8 (b # bs) =
     (case utf8_next (b # bs) of
        Valid n \<Rightarrow> is_utf8 (drop (n - 1) bs)
      | Invalid n \<Rightarrow> False)"

definition from_utf8 :: "bytes \<Rightarrow> bytes option" where
  "from_utf8 bs = (if is_utf8 bs then Some bs else None)"

fun from_utf8_lossy :: "bytes \<Rightarrow> bytes" where
  "from_utf8_lossy [] = []"
| "from_utf8_lossy (b # bs) =
     (case utf8_next (b # bs) of
        Valid n \<Rightarrow> take n (b # bs) @ from_utf8_lossy (drop (n - 1) bs)
      | Invalid n \<Rightarrow> [0xEF, 0xBF, 0xBD] @ from_utf8_lossy (drop (n - 1) bs))"

lemma utf8_next_pos: "utf8_next bs = Valid n \<Longrightarrow> 0 < n"
  by (auto simp: utf8_next_def Let_def split: if_splits)

lemma utf8_next_ascii: "b < 0x80 \<Longrightarrow> utf8_next (b # bs) = Valid 1"
  by (simp add: utf8_next_def byte_at_def)

lemma is_utf8_ascii_Cons [simp]: "b < 0x80 \<Longrightarrow> is_utf8 (b # bs) = is_utf8 bs"
  by (simp add: utf8_next_ascii is_utf8.simps(2))

lemma is_utf8_ascii: "(\<forall>b\<in>set bs. b < 0x80) \<Longrightarrow> is_utf8 bs"
  by (induction bs) (simp_all del: is_utf8.simps(2))

declare is_utf8.simps(2) [simp del]

lemma from_utf8_lossy_id: "is_utf8 bs \<Longrightarrow> from_utf8_lossy bs = bs"
proof (induction bs rule: is_utf8.induct)
  case (2 b bs)
  then obtain n where n: "utf8_next (b # bs) = Valid n" and u: "is_utf8 (drop (n - 1) bs)"
    by (auto simp: is_utf8.simps(2) split: utf8_step.splits)
  from utf8_next_pos [OF n] obtain m where m: "n = Suc m" by (cases n) auto
  from 2(1) [OF n u] n m show ?case by simp
qed simp

lemma from_utf8_Some [simp]: "from_utf8 bs = Some s \<longleftrightarrow> is_utf8 bs \<and> s = bs"
  by (auto simp: from_utf8_def)

lemma from_utf8_None [simp]: "from_utf8 bs = None \<longleftrightarrow> \<not> is_utf8 bs"
  by (simp add: from_utf8_def)

end
