(* ===== verification/Buffers.thy ===== *)
theory Buffers
  imports Prelude
begin

text \<open>
  The buffer traits of the \<^verbatim>\<open>bytes\<close> crate over which the protocol codec is generic
  (\<^verbatim>\<open>fn decode<B: Buf>\<close>, \<^verbatim>\<open>fn encode<B: BufMut>\<close>): an implementation of the trait is
  a record of its operations, and the codec takes that record as its argument. The locales
  \<open>buf\<close> and \<open>buf_mut\<close> state what the crate documents of every implementation; they are
  interpreted on the two implementations the crate gives for standard types, a byte slice
  (\<^verbatim>\<open>impl Buf for &[u8]\<close>) and a growable vector (\<^verbatim>\<open>impl BufMut for Vec<u8>\<close>).
\<close>

section \<open>Reading\<close>

text \<open>An accessor that finds too few bytes panics, which is the result \<open>None\<close>.\<close>

record 'b buf_ops =
  remaining :: "'b \<Rightarrow> nat"
  get_u8 :: "'b \<Rightarrow> (u8 \<times> 'b) option"
  get_u16_le :: "'b \<Rightarrow> (u16 \<times> 'b) option"
  get_u32_le :: "'b \<Rightarrow> (u32 \<times> 'b) option"
  copy_to_slice :: "nat \<Rightarrow> 'b \<Rightarrow> (bytes \<times> 'b) option"
  copy_to_bytes :: "nat \<Rightarrow> 'b \<Rightarrow> (bytes \<times> 'b) option"

record 'b buf_mut_ops =
  put_u8 :: "u8 \<Rightarrow> 'b \<Rightarrow> 'b"
  put_u16_le :: "u16 \<Rightarrow> 'b \<Rightarrow> 'b"
  put_u32_le :: "u32 \<Rightarrow> 'b \<Rightarrow> 'b"
  put_slice :: "bytes \<Rightarrow> 'b \<Rightarrow> 'b"

definition slice_buf :: "bytes buf_ops" where
  "slice_buf = \<lparr>
     remaining = length,
     get_u8 = (\<lambda>b. if length b < 1 then None else Some (hd b, drop 1 b)),
     get_u16_le = (\<lambda>b. if length b < 2 then None else Some (of_nat (le_value (take 2 b)), drop 2 b)),
     get_u32_le = (\<lambda>b. if length b < 4 then None else Some (of_nat (le_value (take 4 b)), drop 4 b)),
     copy_to_slice = (\<lambda>n b. if length b < n then None else Some (take n b, drop n b)),
     copy_to_bytes = (\<lambda>n b. if length b < n then None else Some (take n b, drop n b)) \<rparr>"

definition vec_buf_mut :: "bytes buf_mut_ops" where
  "vec_buf_mut = \<lparr>
     put_u8 = (\<lambda>x b. b @ [x]),
     put_u16_le = (\<lambda>x b. b @ le_bytes 2 (unat x)),
     put_u32_le = (\<lambda>x b. b @ le_bytes 4 (unat x)),
     put_slice = (\<lambda>s b. b @ s) \<rparr>"

text \<open>
  \<open>contents\<close> is the abstraction: the unread bytes. Every accessor returns the front of them and
  leaves the buffer past what it returned; where too few bytes remain it panics.
\<close>

locale buf =
  fixes B :: "'b buf_ops" and contents :: "'b \<Rightarrow> bytes"
  assumes buf_remaining: "remaining B b = length (contents b)"
    and buf_u8: "map_option (map_prod id contents) (get_u8 B b) =
      (if length (contents b) < 1 then None
       else Some (hd (contents b), drop 1 (contents b)))"
    and buf_u16: "map_option (map_prod id contents) (get_u16_le B b) =
      (if length (contents b) < 2 then None
       else Some (of_nat (le_value (take 2 (contents b))), drop 2 (contents b)))"
    and buf_u32: "map_option (map_prod id contents) (get_u32_le B b) =
      (if length (contents b) < 4 then None
       else Some (of_nat (le_value (take 4 (contents b))), drop 4 (contents b)))"
    and buf_slice: "map_option (map_prod id contents) (copy_to_slice B n b) =
      (if length (contents b) < n then None
       else Some (take n (contents b), drop n (contents b)))"
    and buf_bytes: "map_option (map_prod id contents) (copy_to_bytes B n b) =
      (if length (contents b) < n then None
       else Some (take n (contents b), drop n (contents b)))"
begin

text \<open>
  \<open>sim m m'\<close>: the reader \<open>m\<close> over the buffer behaves as \<open>m'\<close> does over its contents. Every
  combinator preserves it, so a reader written over the operations \<open>B\<close> is determined by its
  instance at \<open>slice_buf\<close>.
\<close>

definition sim :: "('b, 'e, 'a) reader \<Rightarrow> (bytes, 'e, 'a) reader \<Rightarrow> bool" where
  "sim m m' \<longleftrightarrow> (\<forall>b. map_option (map_prod id contents) (m b) = m' (contents b))"

lemma sim_simple:
  "sim (ok x) (ok x)" "sim (err e) (err e)" "sim (guard e c) (guard e c)"
  "sim (lift_result r) (lift_result r)"
  "sim (asks (remaining B)) (asks (remaining slice_buf))"
  by (auto simp: sim_def panic_simps slice_buf_def buf_remaining)

lemma sim_lift_get:
  assumes "\<And>b. map_option (map_prod id contents) (g b) = g' (contents b)"
  shows "sim (lift_get g) (lift_get g')"
  unfolding sim_def
proof
  fix b
  show "map_option (map_prod id contents) (lift_get g b) = lift_get g' (contents b)"
    using assms [of b, symmetric] by (cases "g b") (auto simp: panic_simps)
qed

lemma sim_accessors:
  "sim (lift_get (get_u8 B)) (lift_get (get_u8 slice_buf))"
  "sim (lift_get (get_u16_le B)) (lift_get (get_u16_le slice_buf))"
  "sim (lift_get (get_u32_le B)) (lift_get (get_u32_le slice_buf))"
  "sim (lift_get (copy_to_slice B n)) (lift_get (copy_to_slice slice_buf n))"
  "sim (lift_get (copy_to_bytes B n)) (lift_get (copy_to_bytes slice_buf n))"
  by (rule sim_lift_get, simp add: slice_buf_def buf_u8 buf_u16 buf_u32 buf_slice buf_bytes)+

lemma sim_try_bind:
  assumes "sim m m'" and "\<And>x. sim (f x) (f' x)"
  shows "sim (try_bind m f) (try_bind m' f')"
  unfolding sim_def
proof
  fix b
  have m: "m' (contents b) = map_option (map_prod id contents) (m b)"
    using assms(1) by (simp add: sim_def)
  show "map_option (map_prod id contents) (try_bind m f b) = try_bind m' f' (contents b)"
    using assms(2) by (auto simp: sim_def panic_simps m split: option.split sum.split)
qed

lemmas sim_intros = sim_simple sim_accessors sim_try_bind

lemma sim_run:
  assumes "sim m m'" and "m' (contents b) = Some (r, c)"
  obtains b' where "m b = Some (r, b')" and "contents b' = c"
  using assms by (cases "m b") (fastforce simp: sim_def dest: spec [of _ b])+

end

locale buf_mut =
  fixes W :: "'w buf_mut_ops" and written :: "'w \<Rightarrow> bytes"
  assumes mut_u8: "written (put_u8 W x w) = written w @ [x]"
    and mut_u16: "written (put_u16_le W y w) = written w @ le_bytes 2 (unat y)"
    and mut_u32: "written (put_u32_le W z w) = written w @ le_bytes 4 (unat z)"
    and mut_slice: "written (put_slice W s w) = written w @ s"
begin

lemmas mut_laws = mut_u8 mut_u16 mut_u32 mut_slice

end

interpretation slice: buf slice_buf "\<lambda>b. b"
  by unfold_locales (auto simp: slice_buf_def)

interpretation vec: buf_mut vec_buf_mut "\<lambda>b. b"
  by unfold_locales (simp_all add: vec_buf_mut_def)

section \<open>Integers of a fixed width\<close>

lemma u16_round: "(of_nat (le_value (le_bytes 2 (unat x))) :: u16) = x"
  using unsigned_less [of x, where ?'a = nat] by (simp add: le_value_le_bytes)

lemma u32_round: "(of_nat (le_value (le_bytes 4 (unat x))) :: u32) = x"
  using unsigned_less [of x, where ?'a = nat] by (simp add: le_value_le_bytes)

lemma u16_bytes: "length bs = 2 \<Longrightarrow> le_bytes 2 (unat (of_nat (le_value bs) :: u16)) = bs"
  using le_value_bound [of bs] le_bytes_le_value [of bs 2] by (simp add: unat_of_nat)

lemma u32_bytes: "length bs = 4 \<Longrightarrow> le_bytes 4 (unat (of_nat (le_value bs) :: u32)) = bs"
  using le_value_bound [of bs] le_bytes_le_value [of bs 4] by (simp add: unat_of_nat)

section \<open>Reading a byte slice\<close>

text \<open>Each accessor of \<open>slice_buf\<close> is characterised by how its input decomposes.\<close>

lemma slice_get_u8_iff [simp]: "get_u8 slice_buf c = Some (x, r) \<longleftrightarrow> c = x # r"
  by (cases c) (auto simp: slice_buf_def)

lemma slice_copy_iff [simp]:
  "copy_to_slice slice_buf n c = Some (s, r) \<longleftrightarrow> c = s @ r \<and> length s = n"
  "copy_to_bytes slice_buf n c = Some (s, r) \<longleftrightarrow> c = s @ r \<and> length s = n"
  by (auto simp: slice_buf_def)

lemma slice_get_u16_iff [simp]:
  "get_u16_le slice_buf c = Some (x, r) \<longleftrightarrow> c = le_bytes 2 (unat x) @ r"
proof
  assume "get_u16_le slice_buf c = Some (x, r)"
  then have *: "2 \<le> length c" "x = of_nat (le_value (take 2 c))" "r = drop 2 c"
    by (auto simp: slice_buf_def split: if_splits)
  then show "c = le_bytes 2 (unat x) @ r" using u16_bytes [of "take 2 c"] by simp
qed (simp add: slice_buf_def u16_round)

lemma slice_get_u32_iff [simp]:
  "get_u32_le slice_buf c = Some (x, r) \<longleftrightarrow> c = le_bytes 4 (unat x) @ r"
proof
  assume "get_u32_le slice_buf c = Some (x, r)"
  then have *: "4 \<le> length c" "x = of_nat (le_value (take 4 c))" "r = drop 4 c"
    by (auto simp: slice_buf_def split: if_splits)
  then show "c = le_bytes 4 (unat x) @ r" using u32_bytes [of "take 4 c"] by simp
qed (simp add: slice_buf_def u32_round)

text \<open>The same facts in the forward direction, for evaluation.\<close>

lemma slice_eval [simp]:
  "get_u8 slice_buf (x # r) = Some (x, r)"
  "get_u16_le slice_buf (le_bytes 2 (unat y) @ r) = Some (y, r)"
  "get_u32_le slice_buf (le_bytes 4 (unat z) @ r) = Some (z, r)"
  "length s = n \<Longrightarrow> copy_to_slice slice_buf n (s @ r) = Some (s, r)"
  "length s = n \<Longrightarrow> copy_to_bytes slice_buf n (s @ r) = Some (s, r)"
  by auto

lemma slice_remaining [simp]: "remaining slice_buf c = length c"
  by (simp add: slice_buf_def)

lemma split_take: "n \<le> length c \<Longrightarrow> \<exists>s r. c = s @ r \<and> length s = n"
  by (metis append_take_drop_id length_take min.absorb2)

lemma split_u16: "2 \<le> length c \<Longrightarrow> \<exists>x r. c = le_bytes 2 (unat (x :: u16)) @ r"
  using split_take [of 2 c] u16_bytes by metis

lemma split_u32: "4 \<le> length c \<Longrightarrow> \<exists>x r. c = le_bytes 4 (unat (x :: u32)) @ r"
  using split_take [of 4 c] u32_bytes by metis

lemma split_u8: "1 \<le> length c \<Longrightarrow> \<exists>x r. c = x # (r :: bytes)"
  by (cases c) auto

lemma try_bind_Inr_iff:
  "try_bind m f s = Some (Inr y, s'') \<longleftrightarrow>
   (\<exists>x s'. m s = Some (Inr x, s') \<and> f x s' = Some (Inr y, s''))"
  by (auto simp: panic_simps split: option.splits sum.splits)

lemma lift_get_Inr_iff [simp]: "lift_get g s = Some (Inr x, s') \<longleftrightarrow> g s = Some (x, s')"
  by (auto simp: panic_simps split: option.splits)

lemma guard_Inr_iff [simp]: "guard e b s = Some (Inr u, s') \<longleftrightarrow> \<not> b \<and> s' = s"
  by (auto simp: panic_simps)

lemma pure_Inr_iff [simp]:
  "ok x s = Some (Inr y, s') \<longleftrightarrow> y = x \<and> s' = s"
  "lift_result r s = Some (Inr y, s') \<longleftrightarrow> r = Inr y \<and> s' = s"
  "asks h s = Some (Inr y, s') \<longleftrightarrow> y = h s \<and> s' = s"
  by (auto simp: panic_simps)

end
