(* ===== verification/Protocol.thy ===== *)
theory Protocol
  imports Utf8 Buffers
begin

text \<open>
  \<^verbatim>\<open>src/protocol/mod.rs\<close>: the binary message protocol. Constants, transfer mode, the 64-byte
  fixed header, address validation, messages, and the codec over any buffer implementation.
  A Rust array \<^verbatim>\<open>[u8; N]\<close> is a byte list; \<open>header_typed\<close> and \<open>message_typed\<close> carry the
  array lengths the Rust types fix. The lemmas show that the decoder never panics, that decoding
  inverts encoding and the converse, that decoded and constructed messages are well formed, and
  what each validation accepts.
\<close>

unbundle bit_operations_syntax

section \<open>Constants\<close>

definition PROTOCOL_VERSION :: u16 where "PROTOCOL_VERSION = 1"
definition MAX_MSG_TYPE_LEN :: nat where "MAX_MSG_TYPE_LEN = 255"
definition MAX_ADDRESS_LEN :: nat where "MAX_ADDRESS_LEN = 1024"
definition MAX_PAYLOAD_LEN :: u32 where "MAX_PAYLOAD_LEN = 1048576"
definition SESSION_TOKEN_LEN :: nat where "SESSION_TOKEN_LEN = 32"
definition MESSAGE_ID_LEN :: nat where "MESSAGE_ID_LEN = 16"
definition SUB_MESSAGE_ID_LEN :: nat where "SUB_MESSAGE_ID_LEN = 4"
definition FIXED_HEADER_SIZE :: nat where "FIXED_HEADER_SIZE = 64"
definition TRANSFER_MODE_MASK :: u8 where "TRANSFER_MODE_MASK = 0x01"
definition TRANSFER_MODE_SHIFT :: nat where "TRANSFER_MODE_SHIFT = 0"

lemmas protocol_consts =
  PROTOCOL_VERSION_def MAX_MSG_TYPE_LEN_def MAX_ADDRESS_LEN_def MAX_PAYLOAD_LEN_def
  SESSION_TOKEN_LEN_def MESSAGE_ID_LEN_def SUB_MESSAGE_ID_LEN_def FIXED_HEADER_SIZE_def
  TRANSFER_MODE_MASK_def TRANSFER_MODE_SHIFT_def

section \<open>Errors and the transfer mode\<close>

datatype protocol_error =
    IncompleteHeader
  | UnsupportedVersion u16
  | UnknownTransferMode u8
  | MsgTypeTooLong u8
  | AddressTooLong u16
  | ReplyToTooLong u16
  | PayloadTooLarge u32
  | IncompleteMsgType
  | IncompleteAddress
  | IncompleteReplyTo
  | IncompletePayload
  | InvalidMsgTypeUtf8
  | InvalidReplyToUtf8
  | InvalidAddressUtf8
  | InvalidAddressFormat bytes
  | EmptyAddressLevel
  | MissingReplyToForInOut
  | UnexpectedReplyToForInOnly

datatype transfer_mode = InOnly | InOut

text \<open>\<^verbatim>\<open>self as u8\<close> on the \<^verbatim>\<open>#[repr(u8)]\<close> enum.\<close>

fun mode_as_u8 :: "transfer_mode \<Rightarrow> u8" where
  "mode_as_u8 InOnly = 0"
| "mode_as_u8 InOut = 1"

definition from_flags :: "u8 \<Rightarrow> protocol_error + transfer_mode" where
  "from_flags flags =
     (let mode_bits = flags AND TRANSFER_MODE_MASK in
      if mode_bits = 0 then Inr InOnly
      else if mode_bits = 1 then Inr InOut
      else Inl (UnknownTransferMode mode_bits))"

definition to_flags :: "transfer_mode \<Rightarrow> u8" where
  "to_flags m = push_bit TRANSFER_MODE_SHIFT (mode_as_u8 m)"

section \<open>The fixed header\<close>

record fixed_header =
  version :: u16
  flags :: u8
  priority :: u8
  session_token :: bytes
  message_id :: bytes
  sub_message_id :: bytes
  ttl :: u8
  msg_type_len :: u8
  address_len :: u16
  payload_len :: u32

definition fixed_header_new ::
    "transfer_mode \<Rightarrow> bytes \<Rightarrow> bytes \<Rightarrow> bytes \<Rightarrow> u8 \<Rightarrow> u8 \<Rightarrow> u8 \<Rightarrow> u16 \<Rightarrow> u32 \<Rightarrow>
     protocol_error + fixed_header" where
  "fixed_header_new mode token mid sub prio tt mtl al pl =
     (if unat mtl > MAX_MSG_TYPE_LEN then Inl (MsgTypeTooLong mtl)
      else if unat al > MAX_ADDRESS_LEN then Inl (AddressTooLong al)
      else if pl > MAX_PAYLOAD_LEN then Inl (PayloadTooLarge pl)
      else Inr \<lparr>version = PROTOCOL_VERSION, flags = to_flags mode, priority = prio,
                session_token = token, message_id = mid, sub_message_id = sub, ttl = tt,
                msg_type_len = mtl, address_len = al, payload_len = pl\<rparr>)"

definition fixed_header_decode :: "'b buf_ops \<Rightarrow> ('b, protocol_error, fixed_header) reader" where
  "fixed_header_decode B =
     try_bind (asks (remaining B)) (\<lambda>n.
     try_bind (guard IncompleteHeader (n < FIXED_HEADER_SIZE)) (\<lambda>_.
     try_bind (lift_get (get_u16_le B)) (\<lambda>ver.
     try_bind (guard (UnsupportedVersion ver) (ver \<noteq> PROTOCOL_VERSION)) (\<lambda>_.
     try_bind (lift_get (get_u8 B)) (\<lambda>fl.
     try_bind (lift_result (from_flags fl)) (\<lambda>_.
     try_bind (lift_get (get_u8 B)) (\<lambda>prio.
     try_bind (lift_get (copy_to_slice B SESSION_TOKEN_LEN)) (\<lambda>token.
     try_bind (lift_get (copy_to_slice B MESSAGE_ID_LEN)) (\<lambda>mid.
     try_bind (lift_get (copy_to_slice B SUB_MESSAGE_ID_LEN)) (\<lambda>sub.
     try_bind (lift_get (get_u8 B)) (\<lambda>tt.
     try_bind (lift_get (get_u8 B)) (\<lambda>mtl.
     try_bind (lift_get (get_u16_le B)) (\<lambda>al.
     try_bind (lift_get (get_u32_le B)) (\<lambda>pl.
     try_bind (guard (MsgTypeTooLong mtl) (unat mtl > MAX_MSG_TYPE_LEN)) (\<lambda>_.
     try_bind (guard (AddressTooLong al) (unat al > MAX_ADDRESS_LEN)) (\<lambda>_.
     try_bind (guard (PayloadTooLarge pl) (pl > MAX_PAYLOAD_LEN)) (\<lambda>_.
     ok \<lparr>version = ver, flags = fl, priority = prio, session_token = token,
          message_id = mid, sub_message_id = sub, ttl = tt, msg_type_len = mtl,
          address_len = al, payload_len = pl\<rparr>)))))))))))))))))"

definition fixed_header_encode :: "'w buf_mut_ops \<Rightarrow> fixed_header \<Rightarrow> 'w \<Rightarrow> 'w" where
  "fixed_header_encode W h w =
     put_u32_le W (payload_len h)
    (put_u16_le W (address_len h)
    (put_u8 W (msg_type_len h)
    (put_u8 W (ttl h)
    (put_slice W (sub_message_id h)
    (put_slice W (message_id h)
    (put_slice W (session_token h)
    (put_u8 W (priority h)
    (put_u8 W (flags h)
    (put_u16_le W (version h) w)))))))))"

definition header_transfer_mode :: "fixed_header \<Rightarrow> protocol_error + transfer_mode" where
  "header_transfer_mode h = from_flags (flags h)"

section \<open>Address validation\<close>

definition is_ascii_alphanumeric :: "u8 \<Rightarrow> bool" where
  "is_ascii_alphanumeric b \<longleftrightarrow>
     (0x30 \<le> b \<and> b \<le> 0x39) \<or> (0x41 \<le> b \<and> b \<le> 0x5A) \<or> (0x61 \<le> b \<and> b \<le> 0x7A)"

definition COLON :: u8 where "COLON = 0x3A"

definition address_byte :: "u8 \<Rightarrow> bool" where
  "address_byte b \<longleftrightarrow> is_ascii_alphanumeric b \<or> b = 0x2D \<or> b = 0x5F \<or> b = COLON"

text \<open>\<^verbatim>\<open>contains("::")\<close> on a byte string.\<close>

fun has_double :: "'a \<Rightarrow> 'a list \<Rightarrow> bool" where
  "has_double c (x # y # xs) = (x = c \<and> y = c \<or> has_double c (y # xs))"
| "has_double c _ = False"

definition validate_address :: "bytes \<Rightarrow> protocol_error + unit" where
  "validate_address a =
     (if a = [] then Inl (InvalidAddressFormat (ascii ''Address cannot be empty''))
      else if hd a = COLON \<or> last a = COLON \<or> has_double COLON a then Inl EmptyAddressLevel
      else if \<not> list_all address_byte a
      then Inl (InvalidAddressFormat (ascii ''Invalid character in address''))
      else Inr ())"

section \<open>Messages\<close>

record message =
  header :: fixed_header
  msg_type :: bytes
  address :: bytes
  reply_to :: bytes
  payload :: bytes

text \<open>\<^verbatim>\<open>str::from_utf8(&b).map_err(|_| e)?\<close> followed by \<^verbatim>\<open>validate_address\<close>.\<close>

definition check_address :: "protocol_error \<Rightarrow> bytes \<Rightarrow> protocol_error + unit" where
  "check_address e b = (case from_utf8 b of None \<Rightarrow> Inl e | Some s \<Rightarrow> validate_address s)"

text \<open>\<^verbatim>\<open>len() as u8\<close>, \<^verbatim>\<open>as u16\<close> and \<^verbatim>\<open>as u32\<close> truncate: \<open>of_nat\<close> at that width.\<close>

definition message_new ::
    "transfer_mode \<Rightarrow> bytes \<Rightarrow> bytes \<Rightarrow> bytes \<Rightarrow> u8 \<Rightarrow> u8 \<Rightarrow> bytes \<Rightarrow> bytes \<Rightarrow> bytes \<Rightarrow> bytes \<Rightarrow>
     protocol_error + message" where
  "message_new mode token mid sub prio tt mt addr rt pay =
     (if mode = InOut \<and> rt = [] then Inl MissingReplyToForInOut
      else if mode = InOnly \<and> rt \<noteq> [] then Inl UnexpectedReplyToForInOnly
      else case check_address InvalidAddressUtf8 addr of Inl e \<Rightarrow> Inl e | Inr _ \<Rightarrow>
       (case (if rt \<noteq> [] then check_address InvalidReplyToUtf8 rt else Inr ()) of
          Inl e \<Rightarrow> Inl e | Inr _ \<Rightarrow>
          (if length mt > MAX_MSG_TYPE_LEN then Inl (MsgTypeTooLong (of_nat (length mt)))
           else if length addr > MAX_ADDRESS_LEN then Inl (AddressTooLong (of_nat (length addr)))
           else if length rt > MAX_ADDRESS_LEN then Inl (ReplyToTooLong (of_nat (length rt)))
           else let plen = of_nat (length pay) :: u32 in
             if plen > MAX_PAYLOAD_LEN then Inl (PayloadTooLarge plen)
             else case fixed_header_new mode token mid sub prio tt
                         (of_nat (length mt)) (of_nat (length addr)) plen of
                    Inl e \<Rightarrow> Inl e
                  | Inr h \<Rightarrow> Inr \<lparr>header = h, msg_type = mt, address = addr,
                                    reply_to = rt, payload = pay\<rparr>)))"

definition decode_reply_to :: "'b buf_ops \<Rightarrow> ('b, protocol_error, bytes) reader" where
  "decode_reply_to B =
     try_bind (asks (remaining B)) (\<lambda>n.
     try_bind (guard IncompleteReplyTo (n < 2)) (\<lambda>_.
     try_bind (lift_get (get_u16_le B)) (\<lambda>len.
     try_bind (guard MissingReplyToForInOut (unat len = 0)) (\<lambda>_.
     try_bind (guard (ReplyToTooLong len) (unat len > MAX_ADDRESS_LEN)) (\<lambda>_.
     try_bind (asks (remaining B)) (\<lambda>n'.
     try_bind (guard IncompleteReplyTo (n' < unat len)) (\<lambda>_.
     try_bind (lift_get (copy_to_bytes B (unat len))) (\<lambda>rt.
     try_bind (lift_result (check_address InvalidReplyToUtf8 rt)) (\<lambda>_.
     ok rt)))))))))"

definition message_decode :: "'b buf_ops \<Rightarrow> ('b, protocol_error, message) reader" where
  "message_decode B =
     try_bind (fixed_header_decode B) (\<lambda>h.
     try_bind (lift_result (header_transfer_mode h)) (\<lambda>mode.
     try_bind (asks (remaining B)) (\<lambda>n1.
     try_bind (guard IncompleteMsgType (n1 < unat (msg_type_len h))) (\<lambda>_.
     try_bind (lift_get (copy_to_bytes B (unat (msg_type_len h)))) (\<lambda>mt.
     try_bind (guard InvalidMsgTypeUtf8 (from_utf8 mt = None)) (\<lambda>_.
     try_bind (asks (remaining B)) (\<lambda>n2.
     try_bind (guard IncompleteAddress (n2 < unat (address_len h))) (\<lambda>_.
     try_bind (lift_get (copy_to_bytes B (unat (address_len h)))) (\<lambda>addr.
     try_bind (lift_result (check_address InvalidAddressUtf8 addr)) (\<lambda>_.
     try_bind (if mode = InOut then decode_reply_to B else ok []) (\<lambda>rt.
     try_bind (asks (remaining B)) (\<lambda>n3.
     try_bind (guard IncompletePayload (n3 < unat (payload_len h))) (\<lambda>_.
     try_bind (lift_get (copy_to_bytes B (unat (payload_len h)))) (\<lambda>pay.
     ok \<lparr>header = h, msg_type = mt, address = addr, reply_to = rt,
          payload = pay\<rparr>))))))))))))))"

definition message_transfer_mode :: "message \<Rightarrow> protocol_error + transfer_mode" where
  "message_transfer_mode m = header_transfer_mode (header m)"

definition message_encode :: "'w buf_mut_ops \<Rightarrow> message \<Rightarrow> 'w \<Rightarrow> 'w" where
  "message_encode W m w =
     (let w1 = fixed_header_encode W (header m) w;
          w2 = put_slice W (msg_type m) w1;
          w3 = put_slice W (address m) w2;
          w4 = (if header_transfer_mode (header m) = Inr InOut
                then put_slice W (reply_to m) (put_u16_le W (of_nat (length (reply_to m))) w3)
                else w3)
      in put_slice W (payload m) w4)"

definition variable_header_size :: "message \<Rightarrow> nat" where
  "variable_header_size m =
     (let reply_to_overhead =
            (if message_transfer_mode m = Inr InOut then 2 + length (reply_to m) else 0)
      in unat (msg_type_len (header m)) + unat (address_len (header m)) + reply_to_overhead)"

definition message_size :: "message \<Rightarrow> nat" where
  "message_size m = FIXED_HEADER_SIZE + variable_header_size m + unat (payload_len (header m))"


section \<open>Well-formed headers and messages\<close>

text \<open>\<open>header_typed\<close>: the array lengths of the Rust type. \<open>header_ok\<close>: what the validations admit.\<close>

definition header_typed :: "fixed_header \<Rightarrow> bool" where
  "header_typed h \<longleftrightarrow>
     length (session_token h) = SESSION_TOKEN_LEN \<and> length (message_id h) = MESSAGE_ID_LEN \<and>
     length (sub_message_id h) = SUB_MESSAGE_ID_LEN"

definition header_ok :: "fixed_header \<Rightarrow> bool" where
  "header_ok h \<longleftrightarrow> header_typed h \<and> version h = PROTOCOL_VERSION \<and>
     unat (address_len h) \<le> MAX_ADDRESS_LEN \<and> payload_len h \<le> MAX_PAYLOAD_LEN"

text \<open>What an address is: non-empty segments between colons, of letters, digits, hyphen, underscore.\<close>

definition segment_byte :: "u8 \<Rightarrow> bool" where
  "segment_byte b \<longleftrightarrow> is_ascii_alphanumeric b \<or> b = 0x2D \<or> b = 0x5F"

definition address_spec :: "bytes \<Rightarrow> bool" where
  "address_spec a \<longleftrightarrow> (\<forall>s \<in> set (split_on COLON a). s \<noteq> [] \<and> list_all segment_byte s)"

definition reply_to_ok :: "message \<Rightarrow> bool" where
  "reply_to_ok m \<longleftrightarrow>
     (if header_transfer_mode (header m) = Inr InOut
      then address_spec (reply_to m) \<and> length (reply_to m) \<le> MAX_ADDRESS_LEN
      else reply_to m = [])"

definition message_ok :: "message \<Rightarrow> bool" where
  "message_ok m \<longleftrightarrow> header_ok (header m) \<and>
     length (msg_type m) = unat (msg_type_len (header m)) \<and> is_utf8 (msg_type m) \<and>
     length (address m) = unat (address_len (header m)) \<and> address_spec (address m) \<and>
     reply_to_ok m \<and>
     length (payload m) = unat (payload_len (header m))"

text \<open>The wire format, as one concatenation.\<close>

definition header_bytes :: "fixed_header \<Rightarrow> bytes" where
  "header_bytes h =
     le_bytes 2 (unat (version h)) @ flags h # priority h # session_token h @ message_id h @
     sub_message_id h @ ttl h # msg_type_len h # le_bytes 2 (unat (address_len h)) @
     le_bytes 4 (unat (payload_len h))"

definition reply_to_bytes :: "message \<Rightarrow> bytes" where
  "reply_to_bytes m =
     (if header_transfer_mode (header m) = Inr InOut
      then le_bytes 2 (length (reply_to m)) @ reply_to m else [])"

definition message_bytes :: "message \<Rightarrow> bytes" where
  "message_bytes m =
     header_bytes (header m) @ msg_type m @ address m @ reply_to_bytes m @ payload m"

lemma length_header_bytes: "header_typed h \<Longrightarrow> length (header_bytes h) = FIXED_HEADER_SIZE"
  by (simp add: header_bytes_def header_typed_def protocol_consts)

section \<open>Transfer mode\<close>

lemma and_mask_cases: "(x :: u8) AND 1 = 0 \<or> x AND 1 = 1"
  by (cases "odd x") (simp_all add: and_one_eq odd_iff_mod_2_eq_one even_iff_mod_2_eq_zero)

lemma from_flags_total: "\<exists>m. from_flags fl = Inr m"
  using and_mask_cases [of fl] by (auto simp: from_flags_def protocol_consts Let_def)

lemma from_to_flags: "from_flags (to_flags m) = Inr m"
  by (cases m) (simp_all add: from_flags_def to_flags_def protocol_consts)

section \<open>Addresses\<close>

lemma split_on_last_Nil: "last (split_on c (xs @ [c])) = []"
  by (simp add: split_on_append_sep)

lemma has_double_iff: "has_double c xs \<longleftrightarrow> (\<exists>ys zs. xs = ys @ c # c # zs)"
proof (induction c xs rule: has_double.induct)
  case (1 c x y xs)
  have "(\<exists>ys zs. x # y # xs = ys @ c # c # zs) \<longleftrightarrow>
        (x = c \<and> y = c) \<or> (\<exists>ys zs. y # xs = ys @ c # c # zs)"
    by (metis append_Cons append_Nil list.inject neq_Nil_conv)
  with 1 show ?case by simp
qed (auto simp: Cons_eq_append_conv)

lemma segments_nonempty_iff:
  "(\<forall>s\<in>set (split_on c a). s \<noteq> []) \<longleftrightarrow>
     a \<noteq> [] \<and> hd a \<noteq> c \<and> last a \<noteq> c \<and> \<not> has_double c a"
proof (induction a rule: length_induct)
  case (1 a)
  consider "a = []" | x where "a = [x]" | x y xs where "a = x # y # xs"
    by (metis neq_Nil_conv)
  then show ?case
  proof cases
    case (3 x y xs)
    have IH: "(\<forall>s\<in>set (split_on c b). s \<noteq> []) \<longleftrightarrow>
        b \<noteq> [] \<and> hd b \<noteq> c \<and> last b \<noteq> c \<and> \<not> has_double c b" if "b = xs \<or> b = y # xs" for b
      using 1 3 that by (metis length_Cons lessI less_SucI)
    show ?thesis
    proof (cases "y = c")
      case True
      with 3 IH [of xs] show ?thesis by (cases xs) auto
    next
      case False
      with 3 IH [of "y # xs"] show ?thesis by (cases "x = c") auto
    qed
  qed auto
qed

lemma segment_byte_address: "segment_byte b \<longleftrightarrow> address_byte b \<and> b \<noteq> COLON"
  by (auto simp: segment_byte_def address_byte_def COLON_def is_ascii_alphanumeric_def)

lemma address_bytes_segments:
  "list_all address_byte a \<longleftrightarrow> (\<forall>s\<in>set (split_on COLON a). list_all segment_byte s)"
  (is "?L \<longleftrightarrow> ?R")
proof
  assume ?L
  then show ?R
    using set_split_on_subset [of _ COLON a] split_on_segments [of _ COLON a]
    by (fastforce simp: list_all_iff segment_byte_address)
next
  assume r: ?R
  have "address_byte b" if "b \<in> set a" for b
  proof (cases "b = COLON")
    case True
    then show ?thesis by (simp add: address_byte_def)
  next
    case False
    with that obtain s where "s \<in> set (split_on COLON a)" "b \<in> set s"
      by (rule mem_split_onE)
    with r show ?thesis by (auto simp: list_all_iff segment_byte_address)
  qed
  then show ?L by (simp add: list_all_iff)
qed

lemma address_spec_validate: "validate_address a = Inr () \<longleftrightarrow> address_spec a"
  using segments_nonempty_iff [of COLON a] address_bytes_segments [of a]
  by (auto simp: validate_address_def address_spec_def)

lemma address_byte_ascii: "address_byte b \<Longrightarrow> b < 0x80"
  by (auto simp: address_byte_def is_ascii_alphanumeric_def COLON_def) (unat_arith+)

lemma address_spec_utf8: "address_spec a \<Longrightarrow> is_utf8 a"
  by (rule is_utf8_ascii)
    (auto simp: list_all_iff address_byte_ascii
       dest: address_spec_validate [THEN iffD2] split: if_splits simp: validate_address_def)

lemma address_spec_nonempty [simp]: "address_spec [] = False"
  by (simp add: address_spec_def)

lemma check_address_iff: "check_address e a = Inr u \<longleftrightarrow> address_spec a"
  using address_spec_validate [of a] address_spec_utf8 [of a]
  by (auto simp: check_address_def split: option.splits)

section \<open>The codec on byte slices\<close>

lemma header_split:
  assumes "FIXED_HEADER_SIZE \<le> length c"
  obtains h r where "header_typed h" and "c = header_bytes h @ r"
proof -
  from assms have "64 \<le> length c" by (simp add: protocol_consts)
  then obtain v c1 where 1: "c = le_bytes 2 (unat (v :: u16)) @ c1" "62 \<le> length c1"
    using split_u16 [of c] by fastforce
  obtain fl pr c2 where 2: "c1 = fl # pr # c2" "60 \<le> length c2"
    using 1 split_u8 [of c1] split_u8 [of "tl c1"] by fastforce
  obtain tk c3 where 3: "c2 = tk @ c3" "length tk = 32" "28 \<le> length c3"
    using 2 split_take [of 32 c2] by fastforce
  obtain mi c4 where 4: "c3 = mi @ c4" "length mi = 16" "12 \<le> length c4"
    using 3 split_take [of 16 c3] by fastforce
  obtain sb c5 where 5: "c4 = sb @ c5" "length sb = 4" "8 \<le> length c5"
    using 4 split_take [of 4 c4] by fastforce
  obtain tt ml c6 where 6: "c5 = tt # ml # c6" "6 \<le> length c6"
    using 5 split_u8 [of c5] split_u8 [of "tl c5"] by fastforce
  obtain al c7 where 7: "c6 = le_bytes 2 (unat (al :: u16)) @ c7" "4 \<le> length c7"
    using 6 split_u16 [of c6] by fastforce
  obtain pl c8 where 8: "c7 = le_bytes 4 (unat (pl :: u32)) @ c8"
    using 7 split_u32 [of c7] by fastforce
  let ?h = "\<lparr>version = v, flags = fl, priority = pr, session_token = tk, message_id = mi,
    sub_message_id = sb, ttl = tt, msg_type_len = ml, address_len = al, payload_len = pl\<rparr>"
  show thesis
    by (rule that [of ?h c8])
      (simp_all add: header_typed_def header_bytes_def protocol_consts 1 2 3 4 5 6 7 8)
qed

lemma fixed_header_decode_bytes:
  assumes "header_typed h"
  shows "fixed_header_decode slice_buf (header_bytes h @ r) =
    (if version h \<noteq> PROTOCOL_VERSION
     then Some (Inl (UnsupportedVersion (version h)), drop 2 (header_bytes h @ r))
     else if MAX_ADDRESS_LEN < unat (address_len h) then Some (Inl (AddressTooLong (address_len h)), r)
     else if MAX_PAYLOAD_LEN < payload_len h then Some (Inl (PayloadTooLarge (payload_len h)), r)
     else Some (Inr h, r))"
proof -
  obtain m where m: "from_flags (flags h) = Inr m" using from_flags_total by blast
  have mtl: "\<not> MAX_MSG_TYPE_LEN < unat (msg_type_len h)"
    using unsigned_less [of "msg_type_len h", where ?'a = nat] by (simp add: protocol_consts)
  have len: "\<not> length (header_bytes h @ r) < FIXED_HEADER_SIZE"
    using length_header_bytes [OF assms] by simp
  show ?thesis
    using assms m mtl len
    by (simp add: fixed_header_decode_def panic_simps header_typed_def) (simp add: header_bytes_def panic_simps)
qed

lemma fixed_header_decode_short:
  "length c < FIXED_HEADER_SIZE \<Longrightarrow> fixed_header_decode slice_buf c = Some (Inl IncompleteHeader, c)"
  by (simp add: fixed_header_decode_def panic_simps)

lemma fixed_header_decode_Inr:
  "fixed_header_decode slice_buf c = Some (Inr h, r) \<longleftrightarrow> header_ok h \<and> c = header_bytes h @ r"
proof (cases "length c < FIXED_HEADER_SIZE")
  case True
  then show ?thesis
    using length_header_bytes [of h] by (auto simp: fixed_header_decode_short header_ok_def)
next
  case False
  then obtain h' r' where *: "header_typed h'" "c = header_bytes h' @ r'"
    using header_split [of c] by auto
  have inj: "h' = h \<and> r' = r" if "header_ok h" "c = header_bytes h @ r"
  proof -
    have "fixed_header_decode slice_buf c = Some (Inr h, r)"
      using that by (auto simp: header_ok_def fixed_header_decode_bytes)
    then show ?thesis using * by (simp add: fixed_header_decode_bytes split: if_splits)
  qed
  show ?thesis
    using * inj by (auto simp: fixed_header_decode_bytes header_ok_def split: if_splits)
qed

lemma fixed_header_decode_no_panic: "fixed_header_decode slice_buf c \<noteq> None"
proof (cases "length c < FIXED_HEADER_SIZE")
  case False
  then obtain h r where "header_typed h" "c = header_bytes h @ r"
    using header_split [of c] by auto
  then show ?thesis by (simp add: fixed_header_decode_bytes)
qed (simp add: fixed_header_decode_short)

text \<open>An accessor whose length was checked against \<open>remaining\<close> does not panic.\<close>

lemma try_bind_no_panic:
  assumes "m s \<noteq> None" and "\<And>x s'. m s = Some (Inr x, s') \<Longrightarrow> f x s' \<noteq> None"
  shows "try_bind m f s \<noteq> None"
  using assms by (auto simp: panic_simps split: option.splits sum.splits)

lemma lift_get_no_panic: "g s \<noteq> None \<Longrightarrow> lift_get g s \<noteq> None"
  by (auto simp: panic_simps)

lemma pure_no_panic:
  "ok x s \<noteq> None" "guard e b s \<noteq> None" "lift_result q s \<noteq> None" "asks g s \<noteq> None"
  by (simp_all add: panic_simps)

lemma slice_no_panic:
  "2 \<le> length c \<Longrightarrow> get_u16_le slice_buf c \<noteq> None"
  "n \<le> length c \<Longrightarrow> copy_to_bytes slice_buf n c \<noteq> None"
  by (simp_all add: slice_buf_def)

lemma decode_reply_to_no_panic: "decode_reply_to slice_buf c \<noteq> None"
  unfolding decode_reply_to_def
  by (intro try_bind_no_panic pure_no_panic lift_get_no_panic slice_no_panic) simp_all

lemma message_decode_no_panic: "message_decode slice_buf c \<noteq> None"
  unfolding message_decode_def
  by (intro try_bind_no_panic fixed_header_decode_no_panic pure_no_panic lift_get_no_panic
      slice_no_panic)
    (use pure_no_panic(1) decode_reply_to_no_panic in \<open>auto split: if_splits\<close>)

lemma decode_reply_to_Inr:
  "decode_reply_to slice_buf c = Some (Inr rt, r) \<longleftrightarrow>
     c = le_bytes 2 (length rt) @ rt @ r \<and> address_spec rt \<and> length rt \<le> MAX_ADDRESS_LEN"
  (is "?D \<longleftrightarrow> ?S")
proof
  assume ?D
  then show ?S
    by (auto simp: decode_reply_to_def try_bind_Inr_iff check_address_iff)
next
  assume s: ?S
  then have u: "unat (of_nat (length rt) :: u16) = length rt"
    by (simp add: unat_of_nat protocol_consts)
  have e: "get_u16_le slice_buf (le_bytes 2 (length rt) @ rt @ r) = Some (of_nat (length rt), rt @ r)"
    by (simp add: u)
  have a: "check_address InvalidReplyToUtf8 rt = Inr ()" using s by (simp add: check_address_iff)
  have "rt \<noteq> []" using s by auto
  with s u e a show ?D
    by (simp add: decode_reply_to_def panic_simps del: slice_get_u16_iff)
qed

lemma message_decode_Inr:
  "message_decode slice_buf c = Some (Inr m, r) \<longleftrightarrow> message_ok m \<and> c = message_bytes m @ r"
  (is "?D \<longleftrightarrow> ?S")
proof
  assume ?D
  then show ?S
    by (auto simp: message_decode_def try_bind_Inr_iff fixed_header_decode_Inr decode_reply_to_Inr
        check_address_iff message_ok_def reply_to_ok_def message_bytes_def reply_to_bytes_def
        split: if_splits)
next
  assume s: ?S
  obtain mode where mode: "header_transfer_mode (header m) = Inr mode"
    using from_flags_total by (auto simp: header_transfer_mode_def)
  have h: "fixed_header_decode slice_buf (header_bytes (header m) @ q) = Some (Inr (header m), q)" for q
    using s by (simp add: fixed_header_decode_Inr message_ok_def)
  have a: "check_address InvalidAddressUtf8 (address m) = Inr ()"
    using s by (simp add: check_address_iff message_ok_def)
  have rt: "(if mode = InOut then decode_reply_to slice_buf else ok []) (reply_to_bytes m @ q) =
      Some (Inr (reply_to m), q)" for q
    using s mode decode_reply_to_Inr [of "reply_to_bytes m @ q" "reply_to m" q]
    by (auto simp: message_ok_def reply_to_ok_def reply_to_bytes_def panic_simps split: if_splits)
  show ?D
    using s mode by (simp add: message_decode_def panic_simps message_bytes_def h a rt message_ok_def)
qed

section \<open>The codec over any buffer\<close>

context buf_mut
begin

lemma written_fixed_header: "written (fixed_header_encode W h w) = written w @ header_bytes h"
  by (simp add: fixed_header_encode_def header_bytes_def mut_laws)

lemma written_message:
  assumes "length (reply_to m) \<le> MAX_ADDRESS_LEN"
  shows "written (message_encode W m w) = written w @ message_bytes m"
proof -
  have "unat (of_nat (length (reply_to m)) :: u16) = length (reply_to m)"
    using assms by (simp add: unat_of_nat protocol_consts)
  then show ?thesis
    by (simp add: message_encode_def message_bytes_def reply_to_bytes_def mut_laws
        written_fixed_header Let_def)
qed

end

context buf
begin

lemma sim_fixed_header_decode: "sim (fixed_header_decode B) (fixed_header_decode slice_buf)"
  unfolding fixed_header_decode_def by (intro sim_intros)

lemma sim_decode_reply_to: "sim (decode_reply_to B) (decode_reply_to slice_buf)"
  unfolding decode_reply_to_def by (intro sim_intros)

lemma sim_message_decode: "sim (message_decode B) (message_decode slice_buf)"
  unfolding message_decode_def
  by (intro sim_intros sim_fixed_header_decode)
    (auto intro: sim_decode_reply_to sim_simple)

lemma message_decode_sim:
  "message_decode slice_buf (contents b) = map_option (map_prod id contents) (message_decode B b)"
  using sim_message_decode by (simp add: sim_def)

end

lemma message_ok_reply_to_len: "message_ok m \<Longrightarrow> length (reply_to m) \<le> MAX_ADDRESS_LEN"
  by (auto simp: message_ok_def reply_to_ok_def split: if_splits)

text \<open>
  C16. Round trip: a well-formed message that was encoded into a buffer is decoded from any buffer
  that starts with those bytes, whatever follows them, and the decoder stops exactly behind them.
\<close>

theorem message_decode_encode:
  assumes "buf B contents" and "buf_mut W written" and "message_ok m"
    and "written w = []" and "contents b = written (message_encode W m w) @ rest"
  shows "\<exists>b'. message_decode B b = Some (Inr m, b') \<and> contents b' = rest"
proof -
  have "message_decode slice_buf (contents b) = Some (Inr m, rest)"
    using assms buf_mut.written_message [OF assms(2) message_ok_reply_to_len]
    by (simp add: message_decode_Inr)
  then show ?thesis
    using buf.sim_run [OF assms(1) buf.sim_message_decode [OF assms(1)]] by metis
qed

text \<open>
  C17. The converse: what the decoder accepts is well formed, and re-encoding the decoded message
  gives back exactly the bytes that were consumed (the wire format has no second reading).
\<close>

theorem message_encode_decode:
  assumes "buf B contents" and "buf_mut W written"
    and "message_decode B b = Some (Inr m, b')" and "written w = []"
  shows "message_ok m \<and> contents b = written (message_encode W m w) @ contents b'"
proof -
  have "message_decode slice_buf (contents b) = Some (Inr m, contents b')"
    using buf.message_decode_sim [OF assms(1), of b] assms(3) by simp
  then have "message_ok m" "contents b = message_bytes m @ contents b'"
    by (simp_all add: message_decode_Inr)
  then show ?thesis
    using assms(4) buf_mut.written_message [OF assms(2) message_ok_reply_to_len] by simp
qed

text \<open>
  C34. The decoder never panics: every read of the buffer is covered by a length check, on any
  input and any buffer implementation.
\<close>

theorem message_decode_total:
  assumes "buf B contents"
  shows "\<exists>r b'. message_decode B b = Some (r, b')"
  using buf.message_decode_sim [OF assms, of b] message_decode_no_panic [of "contents b"]
  by (cases "message_decode B b") auto

text \<open>
  \<^verbatim>\<open>Message::size\<close> is the number of bytes \<^verbatim>\<open>Message::encode\<close> writes.
\<close>

theorem message_size_encode:
  assumes "buf_mut W written" and "message_ok m"
  shows "length (written (message_encode W m w)) = length (written w) + message_size m"
  using buf_mut.written_message [OF assms(1) message_ok_reply_to_len [OF assms(2)], of w] assms(2)
    length_header_bytes [of "header m"]
  by (auto simp: message_bytes_def message_size_def variable_header_size_def reply_to_bytes_def
      message_transfer_mode_def message_ok_def header_ok_def reply_to_ok_def)

section \<open>Truncated input\<close>

fun is_incomplete :: "protocol_error \<Rightarrow> bool" where
  "is_incomplete IncompleteHeader = True"
| "is_incomplete IncompleteMsgType = True"
| "is_incomplete IncompleteAddress = True"
| "is_incomplete IncompleteReplyTo = True"
| "is_incomplete IncompletePayload = True"
| "is_incomplete _ = False"

lemma prefix_append_dest:
  "prefix c (xs @ ys) \<Longrightarrow> strict_prefix c xs \<or> (\<exists>zs. c = xs @ zs \<and> prefix zs ys)"
  by (cases "c = xs") (auto simp: prefix_append strict_prefix_def)

lemma prefix_append_cases:
  assumes "prefix c (xs @ ys)"
  obtains "strict_prefix c xs" | zs where "c = xs @ zs" and "prefix zs ys"
  using prefix_append_dest [OF assms] by blast

lemma strict_prefix_length: "strict_prefix c xs \<Longrightarrow> length c < length xs"
  by (rule prefix_length_less)

lemma decode_reply_to_truncated:
  assumes "address_spec rt" and "length rt \<le> MAX_ADDRESS_LEN"
    and "strict_prefix c (le_bytes 2 (length rt) @ rt)"
  shows "\<exists>b'. decode_reply_to slice_buf c = Some (Inl IncompleteReplyTo, b')"
proof -
  have u: "unat (of_nat (length rt) :: u16) = length rt"
    using assms(2) by (simp add: unat_of_nat protocol_consts)
  have rt: "rt \<noteq> []" using assms(1) by auto
  from assms(3) have "prefix c (le_bytes 2 (length rt) @ rt)" by simp
  then show ?thesis
  proof (cases rule: prefix_append_cases)
    case 1
    then have "length c < 2" using strict_prefix_length [OF 1] by simp
    then show ?thesis by (simp add: decode_reply_to_def panic_simps)
  next
    case (2 zs)
    have g: "get_u16_le slice_buf (le_bytes 2 (length rt) @ zs) = Some (of_nat (length rt), zs)"
      by (simp add: u)
    have "length zs < length rt" using assms(3) 2 strict_prefix_length [OF assms(3)] by simp
    then show ?thesis
      using 2 rt assms(2) u
      by (simp add: decode_reply_to_def panic_simps g del: slice_get_u16_iff)
  qed
qed

lemma message_decode_truncated:
  assumes ok: "message_ok m" and c: "strict_prefix c (message_bytes m)"
  shows "\<exists>e b'. message_decode slice_buf c = Some (Inl e, b') \<and> is_incomplete e"
proof -
  note defs = message_decode_def panic_simps
  obtain mode where mode: "header_transfer_mode (header m) = Inr mode"
    using from_flags_total by (auto simp: header_transfer_mode_def)
  have h: "fixed_header_decode slice_buf (header_bytes (header m) @ q) = Some (Inr (header m), q)" for q
    using ok by (simp add: fixed_header_decode_Inr message_ok_def)
  have a: "check_address InvalidAddressUtf8 (address m) = Inr ()"
    using ok by (simp add: check_address_iff message_ok_def)
  have rt: "(if mode = InOut then decode_reply_to slice_buf else Prelude.ok []) (reply_to_bytes m @ q) =
      Some (Inr (reply_to m), q)" for q
    using ok mode decode_reply_to_Inr [of "reply_to_bytes m @ q" "reply_to m" q]
    by (auto simp: message_ok_def reply_to_ok_def reply_to_bytes_def panic_simps split: if_splits)
  have rt_short: "\<exists>b'. decode_reply_to slice_buf q = Some (Inl IncompleteReplyTo, b') \<and> mode = InOut"
    if "strict_prefix q (reply_to_bytes m)" for q
    using that ok mode decode_reply_to_truncated [of "reply_to m" q]
    by (auto simp: message_ok_def reply_to_ok_def reply_to_bytes_def split: if_splits)
  from c have "prefix c (header_bytes (header m) @ msg_type m @ address m @ reply_to_bytes m @ payload m)"
    by (simp add: message_bytes_def)
  then consider (H) "strict_prefix c (header_bytes (header m))"
    | (T) q where "c = header_bytes (header m) @ q" "strict_prefix q (msg_type m)"
    | (A) q where "c = header_bytes (header m) @ msg_type m @ q" "strict_prefix q (address m)"
    | (R) q where "c = header_bytes (header m) @ msg_type m @ address m @ q"
        "strict_prefix q (reply_to_bytes m)"
    | (P) q where "c = header_bytes (header m) @ msg_type m @ address m @ reply_to_bytes m @ q"
        "prefix q (payload m)"
    by (auto dest!: prefix_append_dest)
  then show ?thesis
  proof cases
    case H
    then have "length c < FIXED_HEADER_SIZE"
      using ok strict_prefix_length length_header_bytes by (fastforce simp: message_ok_def header_ok_def)
    then show ?thesis by (simp add: defs fixed_header_decode_short)
  next
    case T
    then show ?thesis
      using ok mode strict_prefix_length [OF T(2)] by (simp add: defs h message_ok_def)
  next
    case A
    then show ?thesis
      using ok mode strict_prefix_length [OF A(2)] by (simp add: defs h message_ok_def)
  next
    case R
    then show ?thesis
      using ok mode rt_short [OF R(2)] by (auto simp: defs h a message_ok_def)
  next
    case P
    have "length q < length (payload m)"
      using P c strict_prefix_length [OF c] by (simp add: message_bytes_def)
    then show ?thesis
      using P ok mode by (simp add: defs h a rt message_ok_def)
  qed
qed

text \<open>
  C35. A message cut short is reported as incomplete: on every strict prefix of a valid encoding
  the decoder returns one of the \<open>Incomplete\<close> errors, never a message and never another error, so
  a reader can wait for more bytes.
\<close>

theorem message_decode_prefix:
  assumes "buf B contents" and "message_ok m" and "strict_prefix (contents b) (message_bytes m)"
  shows "\<exists>e b'. message_decode B b = Some (Inl e, b') \<and> is_incomplete e"
  using message_decode_truncated [OF assms(2,3)] buf.message_decode_sim [OF assms(1), of b]
  by (cases "message_decode B b") auto

section \<open>Constructing messages\<close>

text \<open>What a caller has to pass to \<^verbatim>\<open>Message::new\<close> for a given mode.\<close>

definition new_request_ok :: "transfer_mode \<Rightarrow> bytes \<Rightarrow> bytes \<Rightarrow> bytes \<Rightarrow> bytes \<Rightarrow> bool" where
  "new_request_ok mode mt addr rt pay \<longleftrightarrow>
     (if mode = InOut then address_spec rt \<and> length rt \<le> MAX_ADDRESS_LEN else rt = []) \<and>
     address_spec addr \<and> length addr \<le> MAX_ADDRESS_LEN \<and> length mt \<le> MAX_MSG_TYPE_LEN \<and>
     (of_nat (length pay) :: u32) \<le> MAX_PAYLOAD_LEN"

definition new_message :: "transfer_mode \<Rightarrow> bytes \<Rightarrow> bytes \<Rightarrow> bytes \<Rightarrow> u8 \<Rightarrow> u8 \<Rightarrow> bytes \<Rightarrow> bytes \<Rightarrow>
    bytes \<Rightarrow> bytes \<Rightarrow> message" where
  "new_message mode token mid sub prio tt mt addr rt pay =
     \<lparr>header = \<lparr>version = PROTOCOL_VERSION, flags = to_flags mode, priority = prio,
        session_token = token, message_id = mid, sub_message_id = sub, ttl = tt,
        msg_type_len = of_nat (length mt), address_len = of_nat (length addr),
        payload_len = of_nat (length pay)\<rparr>,
      msg_type = mt, address = addr, reply_to = rt, payload = pay\<rparr>"

lemma check_address_ok: "address_spec a \<Longrightarrow> check_address e a = Inr ()"
  by (simp add: check_address_iff)

lemma check_address_bad: "\<not> address_spec a \<Longrightarrow> \<exists>e'. check_address e a = Inl e'"
  using check_address_iff [of e a] by (cases "check_address e a") auto

lemma message_new_accept:
  assumes "new_request_ok mode mt addr rt pay"
  shows "message_new mode token mid sub prio tt mt addr rt pay =
    Inr (new_message mode token mid sub prio tt mt addr rt pay)"
proof -
  have "unat (of_nat (length mt) :: u8) \<le> MAX_MSG_TYPE_LEN"
    "unat (of_nat (length addr) :: u16) \<le> MAX_ADDRESS_LEN"
    using assms by (auto simp: new_request_ok_def unat_of_nat protocol_consts)
  then show ?thesis
    using assms
    by (cases mode)
      (auto simp: new_request_ok_def message_new_def new_message_def fixed_header_new_def
        check_address_ok Let_def)
qed

lemma message_new_reject:
  assumes "\<not> new_request_ok mode mt addr rt pay"
  shows "\<exists>e. message_new mode token mid sub prio tt mt addr rt pay = Inl e"
  using assms check_address_bad [of addr InvalidAddressUtf8] check_address_bad [of rt InvalidReplyToUtf8]
  by (cases mode; cases "address_spec addr"; cases "address_spec rt")
    (auto simp: new_request_ok_def message_new_def check_address_ok Let_def not_le)

lemma message_new_Inr:
  "message_new mode token mid sub prio tt mt addr rt pay = Inr m \<longleftrightarrow>
     new_request_ok mode mt addr rt pay \<and>
     m = new_message mode token mid sub prio tt mt addr rt pay"
proof (cases "new_request_ok mode mt addr rt pay")
  case True
  then show ?thesis by (simp add: message_new_accept) blast
next
  case False
  obtain e where "message_new mode token mid sub prio tt mt addr rt pay = Inl e"
    using message_new_reject [OF False] by blast
  with False show ?thesis by simp
qed

lemma new_message_mode: "header_transfer_mode (header (new_message mode token mid sub prio tt mt addr rt pay)) = Inr mode"
  by (simp add: new_message_def header_transfer_mode_def from_to_flags)

text \<open>
  What the documentation of the protocol asks of the arguments: a UTF-8 message type of at most 255
  bytes, a valid address of at most 1024 bytes, a reply address exactly in \<open>InOut\<close> mode, valid and of at
  most 1024 bytes, and a payload of at most 1 MiB.
\<close>

definition documented_ok :: "transfer_mode \<Rightarrow> bytes \<Rightarrow> bytes \<Rightarrow> bytes \<Rightarrow> bytes \<Rightarrow> bool" where
  "documented_ok mode mt addr rt pay \<longleftrightarrow> is_utf8 mt \<and> length mt \<le> 255 \<and> address_spec addr \<and> length addr \<le> 1024 \<and>
     (case mode of InOut \<Rightarrow> address_spec rt \<and> length rt \<le> 1024 | InOnly \<Rightarrow> rt = []) \<and> length pay \<le> 1048576"

text \<open>
  C32. \<^verbatim>\<open>Message::new\<close> succeeds on all documented arguments, and builds the message with exactly those
  parts and the requested mode in its flags. It succeeds on others only in two ways: the message type
  is not UTF-8, or the payload has \<open>2 ^ 32\<close> bytes or more; on all remaining arguments it is an error.
\<close>

theorem message_new_documented:
  "(documented_ok mode mt addr rt pay \<longrightarrow>
     (\<exists>m. message_new mode token mid sub prio tt mt addr rt pay = Inr m \<and> msg_type m = mt \<and> address m = addr \<and>
       reply_to m = rt \<and> payload m = pay \<and> message_transfer_mode m = Inr mode \<and>
       message_id (header m) = mid \<and> unat (payload_len (header m)) = length pay)) \<and>
   (\<not> documented_ok mode mt addr rt pay \<and> is_utf8 mt \<and> length pay < 2 ^ 32 \<longrightarrow>
     (\<exists>e. message_new mode token mid sub prio tt mt addr rt pay = Inl e))"
proof (intro conjI impI)
  have len: "(of_nat (length pay) :: u32) \<le> MAX_PAYLOAD_LEN \<longleftrightarrow> length pay \<le> 1048576" if "length pay < 2 ^ 32"
    using that by (simp add: word_le_nat_alt unat_of_nat protocol_consts)
  {
    assume d: "documented_ok mode mt addr rt pay"
    then have "length pay < 2 ^ 32" by (simp add: documented_ok_def)
    then have u: "unat (of_nat (length pay) :: u32) = length pay" by (simp add: unat_of_nat)
    have "new_request_ok mode mt addr rt pay"
      using d len by (auto simp: documented_ok_def new_request_ok_def protocol_consts split: transfer_mode.splits)
    then have "message_new mode token mid sub prio tt mt addr rt pay =
        Inr (new_message mode token mid sub prio tt mt addr rt pay)" by (rule message_new_accept)
    then show "\<exists>m. message_new mode token mid sub prio tt mt addr rt pay = Inr m \<and> msg_type m = mt \<and> address m = addr \<and>
       reply_to m = rt \<and> payload m = pay \<and> message_transfer_mode m = Inr mode \<and>
       message_id (header m) = mid \<and> unat (payload_len (header m)) = length pay"
      using u new_message_mode [of mode token mid sub prio tt mt addr rt pay]
      by (simp add: message_transfer_mode_def) (simp add: new_message_def)
  next
    assume "\<not> documented_ok mode mt addr rt pay \<and> is_utf8 mt \<and> length pay < 2 ^ 32"
    then have "\<not> new_request_ok mode mt addr rt pay"
      using len by (auto simp: documented_ok_def new_request_ok_def protocol_consts split: transfer_mode.splits if_splits)
    then show "\<exists>e. message_new mode token mid sub prio tt mt addr rt pay = Inl e" by (rule message_new_reject)
  }
qed

lemma new_message_ok:
  assumes r: "new_request_ok mode mt addr rt pay"
    and "length token = SESSION_TOKEN_LEN" and "length mid = MESSAGE_ID_LEN"
    and "length sub = SUB_MESSAGE_ID_LEN" and "length pay < 2 ^ 32"
  shows "message_ok (new_message mode token mid sub prio tt mt addr rt pay) \<longleftrightarrow> is_utf8 mt"
proof -
  have "unat (of_nat (length mt) :: u8) = length mt" "unat (of_nat (length addr) :: u16) = length addr"
    "unat (of_nat (length pay) :: u32) = length pay"
    using r assms(5) by (auto simp: new_request_ok_def unat_of_nat protocol_consts)
  then show ?thesis
    using r assms(2-4) new_message_mode [of mode token mid sub prio tt mt addr rt pay]
    by (cases mode)
      (auto simp: message_ok_def header_ok_def header_typed_def reply_to_ok_def new_request_ok_def
        new_message_def)
qed

text \<open>
  A constructed message whose payload length fits in 32 bits is well formed, and so
  survives encoding and decoding, exactly when its message type is UTF-8.
\<close>

theorem message_new_well_formed:
  assumes "message_new mode token mid sub prio tt mt addr rt pay = Inr m"
    and "length token = SESSION_TOKEN_LEN" and "length mid = MESSAGE_ID_LEN"
    and "length sub = SUB_MESSAGE_ID_LEN" and "length pay < 2 ^ 32"
  shows "message_ok m \<longleftrightarrow> is_utf8 mt"
  using assms new_message_ok by (auto simp: message_new_Inr)

text \<open>
  The payload limit is checked on \<^verbatim>\<open>payload.len() as u32\<close>: a payload of \<open>2\<^sup>3\<^sup>2 + k\<close> bytes
  with \<open>k\<close> within the limit is accepted, and its header announces only \<open>k\<close> bytes.
\<close>

theorem message_new_payload_wraps:
  assumes "address_spec addr" and "length addr \<le> MAX_ADDRESS_LEN" and "length mt \<le> MAX_MSG_TYPE_LEN"
    and "length pay = 2 ^ 32 + k" and "k \<le> unat MAX_PAYLOAD_LEN"
  shows "\<exists>m. message_new InOnly token mid sub prio tt mt addr [] pay = Inr m \<and>
    unat (payload_len (header m)) = k \<and> length (payload m) = 2 ^ 32 + k"
proof -
  have k: "k < 2 ^ 32" using assms(5) by (simp add: protocol_consts)
  have p: "(of_nat (length pay) :: u32) = of_nat k" by (simp add: assms(4))
  have u: "unat (of_nat k :: u32) = k" using k by (simp add: unat_of_nat)
  then have "(of_nat k :: u32) \<le> MAX_PAYLOAD_LEN" using assms(5) by (simp add: word_le_nat_alt)
  then have "new_request_ok InOnly mt addr [] pay"
    using assms(1-3) p by (simp add: new_request_ok_def)
  then have "message_new InOnly token mid sub prio tt mt addr [] pay =
      Inr (new_message InOnly token mid sub prio tt mt addr [] pay)"
    by (rule message_new_accept)
  moreover have "unat (payload_len (header (new_message InOnly token mid sub prio tt mt addr [] pay))) = k"
    by (simp only: new_message_def p u message.simps fixed_header.simps)
  ultimately show ?thesis
    using assms(4) by (intro exI conjI) (auto simp: new_message_def)
qed

text \<open>
  \<^verbatim>\<open>Message::new\<close> does not check that the message type is UTF-8, while the decoder does: such
  a message is constructed, and the bytes it encodes to are rejected on the receiving side.
\<close>

theorem message_new_msg_type_unchecked:
  assumes "buf B contents" and "buf_mut W written"
    and "new_request_ok mode mt addr rt pay" and "\<not> is_utf8 mt"
    and "length token = SESSION_TOKEN_LEN" and "length mid = MESSAGE_ID_LEN"
    and "length sub = SUB_MESSAGE_ID_LEN"
    and "written w = []" and "m = new_message mode token mid sub prio tt mt addr rt pay"
    and "contents b = written (message_encode W m w) @ rest"
  shows "message_new mode token mid sub prio tt mt addr rt pay = Inr m \<and>
    (\<exists>b'. message_decode B b = Some (Inl InvalidMsgTypeUtf8, b'))"
proof -
  have mode: "header_transfer_mode (header m) = Inr mode" using new_message_mode assms(9) by simp
  have u: "unat (of_nat (length mt) :: u8) = length mt" "unat (of_nat (length addr) :: u16) = length addr"
    using assms(3) by (auto simp: new_request_ok_def unat_of_nat protocol_consts)
  have hok: "header_ok (header m)"
    using assms(3,5-7,9) u
    by (auto simp: header_ok_def header_typed_def new_message_def new_request_ok_def)
  have rl: "length (reply_to m) \<le> MAX_ADDRESS_LEN"
    using assms(3,9) by (auto simp: new_request_ok_def new_message_def split: if_splits)
  have h: "fixed_header_decode slice_buf (header_bytes (header m) @ q) = Some (Inr (header m), q)" for q
    using hok by (simp add: fixed_header_decode_Inr)
  have "\<exists>r. message_decode slice_buf (contents b) = Some (Inl InvalidMsgTypeUtf8, r)"
    using assms(4,8,9,10) mode u(1) h buf_mut.written_message [OF assms(2) rl, of w]
    by (simp add: message_bytes_def message_decode_def panic_simps new_message_def)
  then show ?thesis
    using assms(3,9) message_new_accept buf.message_decode_sim [OF assms(1), of b]
    by (cases "message_decode B b") auto
qed

text \<open>
  Address validation accepts exactly the addresses whose colon-separated segments are all
  non-empty and consist of ASCII letters, digits, hyphen and underscore.
\<close>

theorem validate_address_iff: "validate_address a = Inr () \<longleftrightarrow> address_spec a"
  by (rule address_spec_validate)

text \<open>
  The transfer mode is bit 0 of the flags: every flags byte has a mode, and the seven
  reserved bits are ignored rather than rejected.
\<close>

theorem from_flags_bit0: "from_flags fl = Inr (if odd fl then InOut else InOnly)"
proof (cases "odd fl")
  case True
  then have "fl AND 1 = 1" by (simp add: and_one_eq odd_iff_mod_2_eq_one)
  with True show ?thesis by (simp add: from_flags_def protocol_consts)
next
  case False
  then have "fl AND 1 = 0" by (simp add: and_one_eq even_iff_mod_2_eq_zero)
  with False show ?thesis by (simp add: from_flags_def protocol_consts)
qed

section \<open>Witnesses\<close>

definition sample_message :: message where
  "sample_message = new_message InOut (replicate 32 7) (replicate 16 1) (replicate 4 0) 128 64
     (ascii ''ping'') (ascii ''a:b'') (ascii ''c'') [1, 2, 3]"

definition sample_bytes :: bytes where
  "sample_bytes = message_encode vec_buf_mut sample_message []"

lemma address_spec_samples:
  "address_spec (ascii ''a:b'')" "address_spec (ascii ''c'')"
  by (simp_all add: address_spec_def COLON_def segment_byte_def is_ascii_alphanumeric_def)

lemma sample_request_ok: "new_request_ok InOut (ascii ''ping'') (ascii ''a:b'') (ascii ''c'') [1, 2, 3]"
  by (simp add: new_request_ok_def address_spec_samples [simplified] protocol_consts)

lemma sample_utf8: "is_utf8 (ascii ''ping'')"
  by simp

lemma sample_message_ok: "message_ok sample_message"
  unfolding sample_message_def
  by (rule new_message_ok [OF sample_request_ok, THEN iffD2])
    (simp_all add: protocol_consts sample_utf8 [simplified])

lemma sample_new:
  "message_new InOut (replicate 32 7) (replicate 16 1) (replicate 4 0) 128 64
     (ascii ''ping'') (ascii ''a:b'') (ascii ''c'') [1, 2, 3] = Inr sample_message"
  unfolding sample_message_def by (rule message_new_accept [OF sample_request_ok])

theorem message_new_documented_witness:
  "\<exists>m. message_new InOut (replicate 32 7) (replicate 16 1) (replicate 4 0) 128 64
     (ascii ''ping'') (ascii ''a:b'') (ascii ''c'') [1, 2, 3] = Inr m \<and> address m = ascii ''a:b'' \<and>
     message_transfer_mode m = Inr InOut"
proof -
  have "documented_ok InOut (ascii ''ping'') (ascii ''a:b'') (ascii ''c'') [1, 2, 3]"
    using address_spec_samples by (simp add: documented_ok_def)
  then show ?thesis using message_new_documented by blast
qed

theorem message_decode_encode_witness:
  "\<exists>b'. message_decode slice_buf (sample_bytes @ [9]) = Some (Inr sample_message, b') \<and> b' = [9]"
  using message_decode_encode [OF slice.buf_axioms vec.buf_mut_axioms sample_message_ok,
      of "[]" "sample_bytes @ [9]" "[9]"]
  by (simp add: sample_bytes_def)

lemma sample_decoded: "message_decode slice_buf (sample_bytes @ [9]) = Some (Inr sample_message, [9])"
  using vec.written_message [OF message_ok_reply_to_len [OF sample_message_ok], of "[]"]
    sample_message_ok
  by (simp add: message_decode_Inr sample_bytes_def)

theorem message_encode_decode_witness:
  "message_ok sample_message \<and>
   sample_bytes @ [9] = message_encode vec_buf_mut sample_message [] @ [9]"
  using message_encode_decode [OF slice.buf_axioms vec.buf_mut_axioms sample_decoded, of "[]"]
  by simp

theorem message_decode_total_witness:
  "\<exists>r b'. message_decode slice_buf [0, 1, 2] = Some (r, b')"
  using message_decode_total [OF slice.buf_axioms] .

theorem message_size_encode_witness:
  "length (message_encode vec_buf_mut sample_message [5]) = 1 + message_size sample_message"
  using message_size_encode [OF vec.buf_mut_axioms sample_message_ok, of "[5]"] by simp

theorem message_decode_prefix_witness:
  "\<exists>e b'. message_decode slice_buf [1] = Some (Inl e, b') \<and> is_incomplete e"
proof (rule message_decode_prefix [OF slice.buf_axioms sample_message_ok])
  have "version (header sample_message) = 1"
    by (simp add: sample_message_def new_message_def protocol_consts)
  then show "strict_prefix [1] (message_bytes sample_message)"
    by (simp add: message_bytes_def header_bytes_def numeral_2_eq_2 strict_prefix_def)
qed

theorem message_new_well_formed_witness:
  "message_ok sample_message \<longleftrightarrow> is_utf8 (ascii ''ping'')"
  by (rule message_new_well_formed [OF sample_new]) (simp_all add: protocol_consts)

theorem message_new_payload_wraps_witness:
  "\<exists>m. message_new InOnly [] [] [] 0 0 [] (ascii ''c'') [] (replicate (2 ^ 32 + 5) 0) = Inr m \<and>
    unat (payload_len (header m)) = 5 \<and> length (payload m) = 2 ^ 32 + 5"
  by (rule message_new_payload_wraps)
    (simp_all add: address_spec_samples [simplified] protocol_consts)

lemma bad_request_ok: "new_request_ok InOnly [0xFF] (ascii ''c'') [] []"
  by (simp add: new_request_ok_def address_spec_samples [simplified] protocol_consts)

theorem message_new_msg_type_unchecked_witness:
  "message_new InOnly (replicate 32 7) (replicate 16 1) (replicate 4 0) 0 0 [0xFF] (ascii ''c'') [] [] =
     Inr (new_message InOnly (replicate 32 7) (replicate 16 1) (replicate 4 0) 0 0 [0xFF]
       (ascii ''c'') [] []) \<and>
   (\<exists>b'. message_decode slice_buf (message_encode vec_buf_mut
       (new_message InOnly (replicate 32 7) (replicate 16 1) (replicate 4 0) 0 0 [0xFF]
         (ascii ''c'') [] []) []) = Some (Inl InvalidMsgTypeUtf8, b'))"
  by (rule message_new_msg_type_unchecked
      [OF slice.buf_axioms vec.buf_mut_axioms bad_request_ok, where w = "[]" and rest = "[]"])
    (simp_all add: protocol_consts is_utf8.simps(2) utf8_next_def byte_at_def)

end
