(* ===== verification/Channel.thy ===== *)
theory Channel
  imports Protocol
begin

text \<open>
  \<^verbatim>\<open>src/broker_core/transport/channel.rs\<close>: the typed wrappers over tokio's bounded channels and
  the pull requests of a load-balanced queue. The channels themselves are tokio's
  (\<^verbatim>\<open>tokio::sync::mpsc\<close> and \<^verbatim>\<open>tokio::sync::oneshot\<close>): records of operations over an
  abstract channel state, which every definition here takes as its argument. The locales \<open>mpsc\<close>
  and \<open>oneshot\<close> state the documented behaviour; they are interpreted on a bounded queue with
  sender count and receiver flag, and on a one-slot cell.
\<close>

section \<open>The interface of tokio's channels\<close>

datatype 'm mpsc_try_send_error = TryFull 'm | TryClosed 'm

datatype mpsc_try_recv_error = TryEmpty | TryDisconnected

text \<open>
  \<open>mp_channel\<close> is \<^verbatim>\<open>mpsc::channel(capacity)\<close>, \<open>None\<close> being its panic; \<open>mp_send\<close> and
  \<open>mp_recv\<close> poll the two futures once, with the state of the channel afterwards.
\<close>

record ('c, 'm) mpsc_ops =
  mp_channel :: "nat \<Rightarrow> 'c option"
  mp_send :: "'m \<Rightarrow> 'c \<Rightarrow> ('m + 'c) poll"
  mp_try_send :: "'m \<Rightarrow> 'c \<Rightarrow> 'm mpsc_try_send_error + 'c"
  mp_recv :: "'c \<Rightarrow> ('m \<times> 'c) option poll"
  mp_try_recv :: "'c \<Rightarrow> mpsc_try_recv_error + 'm \<times> 'c"
  mp_is_closed :: "'c \<Rightarrow> bool"
  mp_capacity :: "'c \<Rightarrow> nat"
  mp_max_capacity :: "'c \<Rightarrow> nat"
  mp_drop_tx :: "'c \<Rightarrow> 'c"
  mp_drop_rx :: "'c \<Rightarrow> 'c"

text \<open>\<open>os_send\<close> gives the value back when the receiver is gone; \<open>os_poll\<close> polls the receiver.\<close>

record ('o, 'm) oneshot_ops =
  os_channel :: 'o
  os_send :: "'m \<Rightarrow> 'o \<Rightarrow> 'm + 'o"
  os_poll :: "'o \<Rightarrow> 'm option poll"
  os_drop_tx :: "'o \<Rightarrow> 'o"
  os_drop_rx :: "'o \<Rightarrow> 'o"

text \<open>Tokio's largest buffer (\<^verbatim>\<open>Semaphore::MAX_PERMITS\<close>, \<^verbatim>\<open>usize::MAX >> 3\<close>).\<close>

definition MAX_PERMITS :: nat where
  "MAX_PERMITS = (2 ^ 64 - 1) div 8"

text \<open>
  \<open>queue\<close> is what is buffered, \<open>cap\<close> the bound given at creation, \<open>txs\<close> the live sender
  references, \<open>rx\<close> whether the receiver lives.
\<close>

locale mpsc =
  fixes M :: "('c, 'm) mpsc_ops"
    and queue :: "'c \<Rightarrow> 'm list" and cap :: "'c \<Rightarrow> nat" and txs :: "'c \<Rightarrow> nat" and rx :: "'c \<Rightarrow> bool"
  assumes mp_new: "1 \<le> n \<Longrightarrow> n \<le> MAX_PERMITS \<Longrightarrow>
      \<exists>c. mp_channel M n = Some c \<and> queue c = [] \<and> cap c = n \<and> txs c = 1 \<and> rx c"
    and mp_new_panic: "n = 0 \<or> MAX_PERMITS < n \<Longrightarrow> mp_channel M n = None"
    and mp_send_closed: "\<not> rx c \<Longrightarrow> mp_send M m c = Ready (Inl m)"
    and mp_send_full: "rx c \<Longrightarrow> cap c \<le> length (queue c) \<Longrightarrow> mp_send M m c = Pending"
    and mp_send_ok: "rx c \<Longrightarrow> length (queue c) < cap c \<Longrightarrow>
      \<exists>c'. mp_send M m c = Ready (Inr c') \<and>
           queue c' = queue c @ [m] \<and> cap c' = cap c \<and> txs c' = txs c \<and> rx c'"
    and mp_try_send_closed: "\<not> rx c \<Longrightarrow> mp_try_send M m c = Inl (TryClosed m)"
    and mp_try_send_full: "rx c \<Longrightarrow> cap c \<le> length (queue c) \<Longrightarrow> mp_try_send M m c = Inl (TryFull m)"
    and mp_try_send_ok: "rx c \<Longrightarrow> length (queue c) < cap c \<Longrightarrow>
      \<exists>c'. mp_try_send M m c = Inr c' \<and>
           queue c' = queue c @ [m] \<and> cap c' = cap c \<and> txs c' = txs c \<and> rx c'"
    and mp_recv_item: "rx c \<Longrightarrow> queue c = m # ms \<Longrightarrow>
      \<exists>c'. mp_recv M c = Ready (Some (m, c')) \<and>
           queue c' = ms \<and> cap c' = cap c \<and> txs c' = txs c \<and> rx c'"
    and mp_recv_wait: "rx c \<Longrightarrow> queue c = [] \<Longrightarrow> 0 < txs c \<Longrightarrow> mp_recv M c = Pending"
    and mp_recv_end: "rx c \<Longrightarrow> queue c = [] \<Longrightarrow> txs c = 0 \<Longrightarrow> mp_recv M c = Ready None"
    and mp_try_recv_item: "rx c \<Longrightarrow> queue c = m # ms \<Longrightarrow>
      \<exists>c'. mp_try_recv M c = Inr (m, c') \<and>
           queue c' = ms \<and> cap c' = cap c \<and> txs c' = txs c \<and> rx c'"
    and mp_try_recv_empty: "rx c \<Longrightarrow> queue c = [] \<Longrightarrow> 0 < txs c \<Longrightarrow> mp_try_recv M c = Inl TryEmpty"
    and mp_try_recv_end: "rx c \<Longrightarrow> queue c = [] \<Longrightarrow> txs c = 0 \<Longrightarrow> mp_try_recv M c = Inl TryDisconnected"
    and mp_closed_iff: "mp_is_closed M c \<longleftrightarrow> \<not> rx c"
    and mp_capacity_eq: "rx c \<Longrightarrow> mp_capacity M c = cap c - length (queue c)"
    and mp_max_capacity_eq: "mp_max_capacity M c = cap c"
    and mp_drop_tx_eq: "queue (mp_drop_tx M c) = queue c" "cap (mp_drop_tx M c) = cap c"
      "txs (mp_drop_tx M c) = txs c - 1" "rx (mp_drop_tx M c) = rx c"
    and mp_drop_rx_eq: "\<not> rx (mp_drop_rx M c)" "cap (mp_drop_rx M c) = cap c" "txs (mp_drop_rx M c) = txs c"

text \<open>\<open>OsWait\<close>: no value yet and both ends alive.\<close>

datatype 'm os_state = OsWait | OsFull 'm | OsTxGone | OsRxGone

locale oneshot =
  fixes O1 :: "('o, 'm) oneshot_ops" and state :: "'o \<Rightarrow> 'm os_state"
  assumes os_new: "state (os_channel O1) = OsWait"
    and os_send_ok: "state s = OsWait \<Longrightarrow> \<exists>s'. os_send O1 m s = Inr s' \<and> state s' = OsFull m"
    and os_send_full: "os_send O1 m s = Inr s' \<Longrightarrow> state s' = OsFull m"
    and os_send_back: "os_send O1 m s = Inl m' \<Longrightarrow> m' = m"
    and os_send_gone: "state s = OsRxGone \<Longrightarrow> os_send O1 m s = Inl m"
    and os_poll_wait: "state s = OsWait \<Longrightarrow> os_poll O1 s = Pending"
    and os_poll_full: "state s = OsFull m \<Longrightarrow> os_poll O1 s = Ready (Some m)"
    and os_poll_gone: "state s = OsTxGone \<Longrightarrow> os_poll O1 s = Ready None"
    and os_drop_tx_wait: "state s = OsWait \<Longrightarrow> state (os_drop_tx O1 s) = OsTxGone"
    and os_drop_tx_other: "state s \<noteq> OsWait \<Longrightarrow> state (os_drop_tx O1 s) = state s"
    and os_drop_rx_wait: "state s = OsWait \<Longrightarrow> state (os_drop_rx O1 s) = OsRxGone"

section \<open>The wrappers\<close>

datatype 'm send_error = SendError 'm

datatype 'm try_send_error = Full 'm | Disconnected 'm

datatype try_recv_error = Empty | RecvDisconnected

datatype recv_timeout_error = TimeoutDisconnected | RecvTimeout

datatype try_request_error = RequestFull | RequestDisconnected

fun try_send_error_from :: "'m mpsc_try_send_error \<Rightarrow> 'm try_send_error" where
  "try_send_error_from (TryFull m) = Full m"
| "try_send_error_from (TryClosed m) = Disconnected m"

fun try_recv_error_from :: "mpsc_try_recv_error \<Rightarrow> try_recv_error" where
  "try_recv_error_from TryEmpty = Empty"
| "try_recv_error_from TryDisconnected = RecvDisconnected"

record channel_load =
  load_capacity :: nat
  load_max_capacity :: nat

text \<open>\<^verbatim>\<open>saturating_sub\<close> is truncated subtraction.\<close>

definition pending_messages :: "channel_load \<Rightarrow> nat" where
  "pending_messages l = load_max_capacity l - load_capacity l"

text \<open>\<^verbatim>\<open>Sender::send\<close>, polled once in the state \<open>c\<close> of its channel.\<close>

definition sender_send :: "('c, 'm) mpsc_ops \<Rightarrow> 'm \<Rightarrow> 'c \<Rightarrow> ('m send_error + 'c) poll" where
  "sender_send M m c = (case mp_send M m c of
     Pending \<Rightarrow> Pending
   | Ready (Inl m') \<Rightarrow> Ready (Inl (SendError m'))
   | Ready (Inr c') \<Rightarrow> Ready (Inr c'))"

definition sender_try_send :: "('c, 'm) mpsc_ops \<Rightarrow> 'm \<Rightarrow> 'c \<Rightarrow> 'm try_send_error + 'c" where
  "sender_try_send M m c = (case mp_try_send M m c of
     Inl e \<Rightarrow> Inl (try_send_error_from e) | Inr c' \<Rightarrow> Inr c')"

definition sender_is_closed :: "('c, 'm) mpsc_ops \<Rightarrow> 'c \<Rightarrow> bool" where
  "sender_is_closed M c = mp_is_closed M c"

definition sender_load :: "('c, 'm) mpsc_ops \<Rightarrow> 'c \<Rightarrow> channel_load" where
  "sender_load M c = \<lparr>load_capacity = mp_capacity M c, load_max_capacity = mp_max_capacity M c\<rparr>"

definition receiver_recv :: "('c, 'm) mpsc_ops \<Rightarrow> 'c \<Rightarrow> ('m \<times> 'c) option poll" where
  "receiver_recv M c = mp_recv M c"

definition receiver_try_recv :: "('c, 'm) mpsc_ops \<Rightarrow> 'c \<Rightarrow> try_recv_error + 'm \<times> 'c" where
  "receiver_try_recv M c = (case mp_try_recv M c of
     Inl e \<Rightarrow> Inl (try_recv_error_from e) | Inr r \<Rightarrow> Inr r)"

text \<open>
  \<^verbatim>\<open>recv_timeout\<close>: \<^verbatim>\<open>tokio::time::timeout\<close> polls the receive first and looks at the clock
  only when it is pending; \<open>elapsed\<close> says whether the deadline has passed.
\<close>

definition receiver_recv_timeout ::
    "('c, 'm) mpsc_ops \<Rightarrow> bool \<Rightarrow> 'c \<Rightarrow> (recv_timeout_error + 'm \<times> 'c) poll" where
  "receiver_recv_timeout M elapsed c = (case mp_recv M c of
     Ready (Some r) \<Rightarrow> Ready (Inr r)
   | Ready None \<Rightarrow> Ready (Inl TimeoutDisconnected)
   | Pending \<Rightarrow> if elapsed then Ready (Inl RecvTimeout) else Pending)"

text \<open>
  A request token is the sending half of a oneshot channel; the model passes the identifier
  \<open>tok\<close> under which that channel is stored. The result carries the new request channel and
  the fresh oneshot cell that the caller stores under \<open>tok\<close> and awaits.
\<close>

definition request_sender_request ::
    "('d, nat) mpsc_ops \<Rightarrow> ('o, 'm) oneshot_ops \<Rightarrow> nat \<Rightarrow> 'd \<Rightarrow> (nat send_error + 'd \<times> 'o) poll" where
  "request_sender_request Q O1 tok d = (case sender_send Q tok d of
     Pending \<Rightarrow> Pending
   | Ready (Inl e) \<Rightarrow> Ready (Inl e)
   | Ready (Inr d') \<Rightarrow> Ready (Inr (d', os_channel O1)))"

definition request_sender_try_request ::
    "('d, nat) mpsc_ops \<Rightarrow> ('o, 'm) oneshot_ops \<Rightarrow> nat \<Rightarrow> 'd \<Rightarrow> try_request_error + 'd \<times> 'o" where
  "request_sender_try_request Q O1 tok d =
     (if sender_is_closed Q d then Inl RequestDisconnected
      else case sender_try_send Q tok d of
        Inr d' \<Rightarrow> Inr (d', os_channel O1)
      | Inl (Full _) \<Rightarrow> Inl RequestFull
      | Inl (Disconnected _) \<Rightarrow> Inl RequestDisconnected)"

definition create_channel :: "('c, 'm) mpsc_ops \<Rightarrow> nat \<Rightarrow> 'c option" where
  "create_channel M capacity = mp_channel M capacity"

definition create_request_channel :: "('d, nat) mpsc_ops \<Rightarrow> nat \<Rightarrow> 'd option" where
  "create_request_channel Q capacity = mp_channel Q capacity"

section \<open>Instances of the interface\<close>

record 'm bounded_queue =
  bq_items :: "'m list"
  bq_cap :: nat
  bq_txs :: nat
  bq_rx :: bool

definition bq_ops :: "('m bounded_queue, 'm) mpsc_ops" where
  "bq_ops = \<lparr>
     mp_channel = (\<lambda>n. if n = 0 \<or> MAX_PERMITS < n then None
                       else Some \<lparr>bq_items = [], bq_cap = n, bq_txs = 1, bq_rx = True\<rparr>),
     mp_send = (\<lambda>m c. if \<not> bq_rx c then Ready (Inl m)
                      else if bq_cap c \<le> length (bq_items c) then Pending
                      else Ready (Inr (c\<lparr>bq_items := bq_items c @ [m]\<rparr>))),
     mp_try_send = (\<lambda>m c. if \<not> bq_rx c then Inl (TryClosed m)
                          else if bq_cap c \<le> length (bq_items c) then Inl (TryFull m)
                          else Inr (c\<lparr>bq_items := bq_items c @ [m]\<rparr>)),
     mp_recv = (\<lambda>c. case bq_items c of
                      m # ms \<Rightarrow> Ready (Some (m, c\<lparr>bq_items := ms\<rparr>))
                    | [] \<Rightarrow> if bq_txs c = 0 then Ready None else Pending),
     mp_try_recv = (\<lambda>c. case bq_items c of
                          m # ms \<Rightarrow> Inr (m, c\<lparr>bq_items := ms\<rparr>)
                        | [] \<Rightarrow> Inl (if bq_txs c = 0 then TryDisconnected else TryEmpty)),
     mp_is_closed = (\<lambda>c. \<not> bq_rx c),
     mp_capacity = (\<lambda>c. bq_cap c - length (bq_items c)),
     mp_max_capacity = bq_cap,
     mp_drop_tx = (\<lambda>c. c\<lparr>bq_txs := bq_txs c - 1\<rparr>),
     mp_drop_rx = (\<lambda>c. c\<lparr>bq_items := [], bq_rx := False\<rparr>) \<rparr>"

interpretation bq: mpsc bq_ops bq_items bq_cap bq_txs bq_rx
  by unfold_locales (auto simp: bq_ops_def)

definition cell_ops :: "('m os_state, 'm) oneshot_ops" where
  "cell_ops = \<lparr>
     os_channel = OsWait,
     os_send = (\<lambda>m s. if s = OsWait then Inr (OsFull m) else Inl m),
     os_poll = (\<lambda>s. case s of OsWait \<Rightarrow> Pending | OsFull m \<Rightarrow> Ready (Some m)
                            | OsTxGone \<Rightarrow> Ready None | OsRxGone \<Rightarrow> Pending),
     os_drop_tx = (\<lambda>s. if s = OsWait then OsTxGone else s),
     os_drop_rx = (\<lambda>s. if s = OsWait then OsRxGone else s) \<rparr>"

interpretation cell: oneshot cell_ops "\<lambda>s. s"
  by unfold_locales (auto simp: cell_ops_def split: if_splits)

section \<open>Histories of one channel\<close>

text \<open>
  A history of calls on the two ends of a channel, through the wrappers; a call that is pending or
  fails leaves the channel as it is. \<open>chan_run\<close> collects the values accepted and delivered.
\<close>

datatype 'm chan_op = OpSend 'm | OpTrySend 'm | OpRecv | OpTryRecv | OpRecvTimeout bool | OpDropTx

fun chan_step :: "('c, 'm) mpsc_ops \<Rightarrow> 'm chan_op \<Rightarrow> 'c \<Rightarrow> 'm list \<times> 'm list \<times> 'c" where
  "chan_step M (OpSend m) c =
     (case sender_send M m c of Ready (Inr c') \<Rightarrow> ([m], [], c') | _ \<Rightarrow> ([], [], c))"
| "chan_step M (OpTrySend m) c =
     (case sender_try_send M m c of Inr c' \<Rightarrow> ([m], [], c') | Inl _ \<Rightarrow> ([], [], c))"
| "chan_step M OpRecv c =
     (case receiver_recv M c of Ready (Some (m, c')) \<Rightarrow> ([], [m], c') | _ \<Rightarrow> ([], [], c))"
| "chan_step M OpTryRecv c =
     (case receiver_try_recv M c of Inr (m, c') \<Rightarrow> ([], [m], c') | Inl _ \<Rightarrow> ([], [], c))"
| "chan_step M (OpRecvTimeout elapsed) c =
     (case receiver_recv_timeout M elapsed c of
        Ready (Inr (m, c')) \<Rightarrow> ([], [m], c') | _ \<Rightarrow> ([], [], c))"
| "chan_step M OpDropTx c = ([], [], mp_drop_tx M c)"

fun chan_run :: "('c, 'm) mpsc_ops \<Rightarrow> 'm chan_op list \<Rightarrow> 'c \<Rightarrow> 'm list \<times> 'm list \<times> 'c" where
  "chan_run M [] c = ([], [], c)"
| "chan_run M (x # xs) c =
     (let (i1, o1, c1) = chan_step M x c; (i2, o2, c2) = chan_run M xs c1
      in (i1 @ i2, o1 @ o2, c2))"

context mpsc
begin

lemma sender_send_cases:
  assumes "rx c"
  obtains (full) "cap c \<le> length (queue c)" "sender_send M m c = Pending"
  | (sent) c' where "length (queue c) < cap c" "sender_send M m c = Ready (Inr c')"
      "queue c' = queue c @ [m]" "cap c' = cap c" "txs c' = txs c" "rx c'"
  using assms mp_send_full [of c m] mp_send_ok [of c m]
  by (cases "length (queue c) < cap c") (auto simp: sender_send_def not_less)

lemma sender_try_send_cases:
  assumes "rx c"
  obtains (full) "cap c \<le> length (queue c)" "sender_try_send M m c = Inl (Full m)"
  | (sent) c' where "length (queue c) < cap c" "sender_try_send M m c = Inr c'"
      "queue c' = queue c @ [m]" "cap c' = cap c" "txs c' = txs c" "rx c'"
  using assms mp_try_send_full [of c m] mp_try_send_ok [of c m]
  by (cases "length (queue c) < cap c") (auto simp: sender_try_send_def not_less)

lemma receiver_recv_cases:
  assumes "rx c"
  obtains (item) m c' where "queue c = m # queue c'" "receiver_recv M c = Ready (Some (m, c'))"
      "cap c' = cap c" "txs c' = txs c" "rx c'"
  | (wait) "queue c = []" "0 < txs c" "receiver_recv M c = Pending"
  | (finish) "queue c = []" "txs c = 0" "receiver_recv M c = Ready None"
proof (cases "queue c")
  case Nil
  then show thesis
    using assms mp_recv_wait [of c] mp_recv_end [of c] wait finish
    by (cases "txs c = 0") (auto simp: receiver_recv_def)
next
  case (Cons m ms)
  then show thesis
    using assms mp_recv_item [of c m ms] item by (auto simp: receiver_recv_def)
qed

lemma receiver_try_recv_cases:
  assumes "rx c"
  obtains (item) m c' where "queue c = m # queue c'" "receiver_try_recv M c = Inr (m, c')"
      "cap c' = cap c" "txs c' = txs c" "rx c'"
  | (empty) e where "queue c = []" "receiver_try_recv M c = Inl e"
proof (cases "queue c")
  case Nil
  then show thesis
    using assms mp_try_recv_empty [of c] mp_try_recv_end [of c] empty
    by (cases "txs c = 0") (auto simp: receiver_try_recv_def)
next
  case (Cons m ms)
  then show thesis
    using assms mp_try_recv_item [of c m ms] item by (auto simp: receiver_try_recv_def)
qed

lemma recv_timeout_recv:
  "receiver_recv_timeout M b c = (case receiver_recv M c of
     Ready (Some r) \<Rightarrow> Ready (Inr r)
   | Ready None \<Rightarrow> Ready (Inl TimeoutDisconnected)
   | Pending \<Rightarrow> if b then Ready (Inl RecvTimeout) else Pending)"
  by (simp add: receiver_recv_timeout_def receiver_recv_def)

lemma chan_step_fifo:
  assumes "rx c" and "length (queue c) \<le> cap c" and "chan_step M x c = (i, out, c')"
  shows "queue c @ i = out @ queue c' \<and> length (queue c') \<le> cap c' \<and> cap c' = cap c \<and> rx c'"
proof (cases x)
  case (OpSend m)
  then show ?thesis using assms by (cases rule: sender_send_cases [OF assms(1), of m]) auto
next
  case (OpTrySend m)
  then show ?thesis using assms by (cases rule: sender_try_send_cases [OF assms(1), of m]) auto
next
  case OpRecv
  then show ?thesis using assms by (cases rule: receiver_recv_cases [OF assms(1)]) auto
next
  case OpTryRecv
  then show ?thesis using assms by (cases rule: receiver_try_recv_cases [OF assms(1)]) auto
next
  case (OpRecvTimeout b)
  then show ?thesis
    using assms by (cases rule: receiver_recv_cases [OF assms(1)]) (auto simp: recv_timeout_recv split: if_splits)
next
  case OpDropTx
  then show ?thesis using assms mp_drop_tx_eq by auto
qed

lemma chan_run_fifo:
  assumes "rx c" and "length (queue c) \<le> cap c" and "chan_run M xs c = (i, out, c')"
  shows "queue c @ i = out @ queue c' \<and> length (queue c') \<le> cap c \<and> rx c'"
  using assms
proof (induction xs arbitrary: c i out)
  case (Cons x xs)
  obtain i1 o1 c1 where 1: "chan_step M x c = (i1, o1, c1)" by (metis prod_cases3)
  obtain i2 o2 c2 where 2: "chan_run M xs c1 = (i2, o2, c2)" by (metis prod_cases3)
  have eq: "i = i1 @ i2" "out = o1 @ o2" "c' = c2" using Cons.prems(3) 1 2 by auto
  have s: "queue c @ i1 = o1 @ queue c1" "length (queue c1) \<le> cap c1" "cap c1 = cap c" "rx c1"
    using chan_step_fifo [OF Cons.prems(1,2) 1] by auto
  have "queue c1 @ i2 = o2 @ queue c' \<and> length (queue c') \<le> cap c1 \<and> rx c'"
    using Cons.IH [of c1 i2 o2] s 2 eq by simp
  with s eq show ?case by (metis append.assoc)
qed simp

end

section \<open>Properties\<close>

text \<open>
  A channel neither loses, duplicates nor reorders: after any history of calls through the
  wrappers, what was buffered followed by what was accepted is what was delivered followed by what
  is still buffered, and the buffer never exceeds its capacity.
\<close>

theorem channel_fifo:
  assumes "mpsc M queue cap txs rx" and "rx c" and "length (queue c) \<le> cap c"
    and "chan_run M xs c = (accepted, delivered, c')"
  shows "queue c @ accepted = delivered @ queue c' \<and> length (queue c') \<le> cap c"
  using mpsc.chan_run_fifo [OF assms] by simp

text \<open>
  The load of a live channel is exact: the pending messages it reports are the buffered ones,
  and a send completes at once exactly when fewer than \<open>max_capacity\<close> messages are pending.
\<close>

theorem channel_load_exact:
  assumes "mpsc M queue cap txs rx" and "rx c" and "length (queue c) \<le> cap c"
  shows "pending_messages (sender_load M c) = length (queue c) \<and>
    (sender_send M m c = Pending \<longleftrightarrow>
     pending_messages (sender_load M c) = load_max_capacity (sender_load M c))"
proof -
  have "pending_messages (sender_load M c) = length (queue c)"
    using mpsc.mp_capacity_eq [OF assms(1,2)] mpsc.mp_max_capacity_eq [OF assms(1)] assms(3)
    by (simp add: pending_messages_def sender_load_def)
  then show ?thesis
    using mpsc.mp_max_capacity_eq [OF assms(1)] assms(3)
    by (cases rule: mpsc.sender_send_cases [OF assms(1,2), of m]) (auto simp: sender_load_def)
qed

text \<open>
  A pull request without waiting reports exactly the state of the request channel: refused as
  disconnected when the dispatcher is gone, refused as full when the buffer is full, and otherwise
  the token is queued behind the others, with a fresh cell for the reply.
\<close>

theorem try_request_result:
  assumes "mpsc Q queue cap txs rx" and "oneshot O1 state"
  shows "if \<not> rx d then request_sender_try_request Q O1 tok d = Inl RequestDisconnected
    else if cap d \<le> length (queue d) then request_sender_try_request Q O1 tok d = Inl RequestFull
    else \<exists>d' cell. request_sender_try_request Q O1 tok d = Inr (d', cell) \<and>
      queue d' = queue d @ [tok] \<and> state cell = OsWait"
proof (cases "rx d")
  case True
  then have "\<not> sender_is_closed Q d"
    using mpsc.mp_closed_iff [OF assms(1)] by (simp add: sender_is_closed_def)
  then show ?thesis
    using oneshot.os_new [OF assms(2)] True
    by (cases rule: mpsc.sender_try_send_cases [OF assms(1) True, of tok])
      (auto simp: request_sender_try_request_def)
qed (use mpsc.mp_closed_iff [OF assms(1)] in
  \<open>simp add: request_sender_try_request_def sender_is_closed_def\<close>)

section \<open>Witnesses\<close>

definition sample_queue :: "nat bounded_queue" where
  "sample_queue = \<lparr>bq_items = [1], bq_cap = 2, bq_txs = 1, bq_rx = True\<rparr>"

theorem channel_fifo_witness:
  "snd (snd (chan_run bq_ops [OpTrySend 2, OpSend 3, OpRecv, OpSend 4] sample_queue)) =
     sample_queue\<lparr>bq_items := [2, 4]\<rparr> \<and>
   fst (chan_run bq_ops [OpTrySend 2, OpSend 3, OpRecv, OpSend 4] sample_queue) = [2, 4] \<and>
   [1] @ [2, 4] = [1] @ bq_items (sample_queue\<lparr>bq_items := [2, 4]\<rparr>)"
proof -
  let ?xs = "[OpTrySend 2, OpSend 3, OpRecv, OpSend 4]"
  have r: "chan_run bq_ops ?xs sample_queue = ([2, 4], [1], sample_queue\<lparr>bq_items := [2, 4]\<rparr>)"
    by (simp add: sample_queue_def bq_ops_def sender_try_send_def sender_send_def receiver_recv_def)
  have "bq_items sample_queue @ [2, 4] = [1] @ bq_items (sample_queue\<lparr>bq_items := [2, 4]\<rparr>)"
    using channel_fifo [OF bq.mpsc_axioms _ _ r] by (simp add: sample_queue_def)
  with r show ?thesis by (simp add: sample_queue_def)
qed

theorem channel_load_exact_witness: "pending_messages (sender_load bq_ops sample_queue) = 1"
  using channel_load_exact [OF bq.mpsc_axioms, of sample_queue] by (simp add: sample_queue_def)

theorem try_request_result_witness:
  "\<exists>d' cell. request_sender_try_request bq_ops cell_ops 5 sample_queue = Inr (d', cell) \<and>
     bq_items d' = [1, 5] \<and> cell = OsWait"
  using try_request_result [OF bq.mpsc_axioms cell.oneshot_axioms, of sample_queue 5]
  by (simp add: sample_queue_def)

end
