(* ===== verification/Load.thy ===== *)
theory Load
  imports Channel "HOL-Library.Log_Nat"
begin

text \<open>
  \<^verbatim>\<open>ChannelLoad::utilization_ratio\<close> of \<^verbatim>\<open>transport/channel.rs\<close>, the one place where the broker
  computes with floating-point numbers. A finite non-negative \<^verbatim>\<open>f64\<close> is its value, a rational
  number; conversion and division give the exact result rounded to the nearest number with 53
  significant bits, ties to the even one, and exponents from -1074 on. The operands are at most
  \<open>2 ^ 64\<close>, so nothing overflows. The lemmas bound the rounding error.
\<close>

section \<open>Rounding\<close>

type_synonym f64 = rat

definition round_even :: "rat \<Rightarrow> int" where
  "round_even y = (let n = \<lfloor>y\<rfloor>; d = y - of_int n
     in if d < 1 / 2 \<or> d = 1 / 2 \<and> even n then n else n + 1)"

definition pow2 :: "int \<Rightarrow> rat" where
  "pow2 k = (if k \<ge> 0 then 2 ^ nat k else 1 / 2 ^ nat (- k))"

text \<open>The exponent of the binade of a positive number.\<close>

definition log2_floor :: "rat \<Rightarrow> int" where
  "log2_floor x = (let (a, b) = quotient_of x; k = bitlen a - bitlen b
     in if pow2 k \<le> x then k else k - 1)"

definition f64_exponent :: "rat \<Rightarrow> int" where
  "f64_exponent x = max (log2_floor x - 52) (- 1074)"

definition round_f64 :: "rat \<Rightarrow> f64" where
  "round_f64 x = (if x = 0 then 0
     else of_int (round_even (x / pow2 (f64_exponent x))) * pow2 (f64_exponent x))"

definition as_f64 :: "nat \<Rightarrow> f64" where
  "as_f64 n = round_f64 (of_nat n)"

definition f64_div :: "f64 \<Rightarrow> f64 \<Rightarrow> f64" where
  "f64_div x y = round_f64 (x / y)"

definition utilization_ratio :: "channel_load \<Rightarrow> f64" where
  "utilization_ratio l =
     (if load_max_capacity l = 0 then 0
      else f64_div (as_f64 (pending_messages l)) (as_f64 (load_max_capacity l)))"

section \<open>Lemmas\<close>

lemma pow2_powi: "pow2 k = 2 powi k"
  by (simp add: pow2_def power_int_def field_simps)

lemma pow2_pos [simp]: "0 < pow2 k" "pow2 k \<noteq> 0" "0 \<le> pow2 k"
  by (simp_all add: pow2_powi)

lemma pow2_add: "pow2 (i + j) = pow2 i * pow2 j"
  by (simp add: pow2_powi power_int_add)

lemma pow2_mono: "i \<le> j \<Longrightarrow> pow2 i \<le> pow2 j"
  by (simp add: pow2_powi power_int_increasing)

lemma pow2_less: "pow2 i < pow2 j \<longleftrightarrow> i < j"
  using pow2_mono [of j i] power_int_strict_increasing [of i j "2 :: rat"]
  by (auto simp: pow2_powi not_less [symmetric])

lemma round_even_error: "\<bar>of_int (round_even y) - y\<bar> \<le> 1 / 2"
proof -
  have "of_int \<lfloor>y\<rfloor> \<le> y" "y < of_int \<lfloor>y\<rfloor> + 1" by linarith+
  then show ?thesis by (auto simp: round_even_def Let_def abs_le_iff)
qed

lemma round_even_int: "round_even (of_int n) = n"
  by (simp add: round_even_def)

lemma round_even_ge: "of_int n \<le> y \<Longrightarrow> n \<le> round_even y"
  by (auto simp: round_even_def Let_def le_floor_iff intro: order_trans) (simp_all add: le_floor_iff [symmetric])

lemma bitlen_pow2_bounds:
  assumes "0 < a"
  shows "pow2 (bitlen a - 1) \<le> of_int a" and "of_int a < pow2 (bitlen a)"
proof -
  have n: "0 \<le> bitlen a - 1" using assms bitlen_eq_zero_iff [of a] bitlen_nonneg [of a] by linarith
  have b: "2 ^ nat (bitlen a - 1) \<le> a" "a < 2 ^ nat (bitlen a)" using bitlen_bounds [OF assms] by auto
  have "(of_int (2 ^ nat (bitlen a - 1)) :: rat) \<le> of_int a" using b(1) by (simp only: of_int_le_iff)
  then show "pow2 (bitlen a - 1) \<le> of_int a" using n by (simp add: pow2_def)
  have "(of_int a :: rat) < of_int (2 ^ nat (bitlen a))" using b(2) by (simp only: of_int_less_iff)
  then show "of_int a < pow2 (bitlen a)" using n by (simp add: pow2_def)
qed

lemma log2_floor_bounds:
  assumes "0 < x"
  shows "pow2 (log2_floor x) \<le> x" and "x < pow2 (log2_floor x + 1)"
proof -
  obtain a b where ab: "quotient_of x = (a, b)" by fastforce
  have b: "0 < b" using quotient_of_denom_pos [OF ab] .
  have x: "x = of_int a / of_int b" using quotient_of_div [OF ab] .
  have a: "0 < a" using assms x b by (simp add: zero_less_divide_iff)
  let ?k = "bitlen a - bitlen b"
  have "x < pow2 (bitlen a) / pow2 (bitlen b - 1)"
    unfolding x using bitlen_pow2_bounds [OF a] bitlen_pow2_bounds [OF b] a b
    by (intro frac_less) (simp_all add: less_imp_le)
  also have "\<dots> = pow2 (?k + 1)"
    using pow2_add [of "?k + 1" "bitlen b - 1"] by (simp add: field_simps)
  finally have up: "x < pow2 (?k + 1)" .
  have "pow2 (bitlen a - 1) / pow2 (bitlen b) \<le> x"
    unfolding x using bitlen_pow2_bounds [OF a] bitlen_pow2_bounds [OF b] a b
    by (intro frac_le) (simp_all add: less_imp_le)
  moreover have "pow2 (bitlen a - 1) / pow2 (bitlen b) = pow2 (?k - 1)"
    using pow2_add [of "?k - 1" "bitlen b"] by (simp add: field_simps)
  ultimately have low: "pow2 (?k - 1) \<le> x" by simp
  show "pow2 (log2_floor x) \<le> x" "x < pow2 (log2_floor x + 1)"
    using up low by (auto simp: log2_floor_def ab Let_def)
qed

lemma log2_floor_less: "0 < x \<Longrightarrow> x < pow2 k \<Longrightarrow> log2_floor x < k"
  using log2_floor_bounds(1) [of x] pow2_less [of "log2_floor x" k] by linarith

lemma log2_floor_ge: "pow2 k \<le> x \<Longrightarrow> k \<le> log2_floor x"
  using log2_floor_bounds(2) [of x] pow2_less [of k "log2_floor x + 1"] pow2_pos(1) [of k] by linarith

text \<open>The rounding error is at most half a unit in the last place.\<close>

lemma round_f64_error:
  assumes "0 < x"
  shows "\<bar>round_f64 x - x\<bar> \<le> pow2 (f64_exponent x) / 2"
proof -
  let ?u = "pow2 (f64_exponent x)"
  have "round_f64 x - x = (of_int (round_even (x / ?u)) - x / ?u) * ?u"
    using assms by (simp add: round_f64_def left_diff_distrib)
  then have "\<bar>round_f64 x - x\<bar> = \<bar>of_int (round_even (x / ?u)) - x / ?u\<bar> * ?u"
    by (simp add: abs_mult)
  also have "\<dots> \<le> 1 / 2 * ?u" using round_even_error by (intro mult_right_mono) (auto simp: less_imp_le)
  finally show ?thesis by simp
qed

lemma round_f64_exact:
  assumes "x / pow2 (f64_exponent x) = of_int n"
  shows "round_f64 x = x"
proof -
  have "round_even (x / pow2 (f64_exponent x)) = n" using assms by (simp only: round_even_int)
  moreover have "x = of_int n * pow2 (f64_exponent x)" using assms by (simp add: divide_eq_eq)
  ultimately show ?thesis by (simp add: round_f64_def)
qed

lemma of_nat_less_pow2: "n < 2 ^ k \<Longrightarrow> of_nat n < pow2 (int k)"
  by (simp add: pow2_def)

text \<open>Integers up to \<open>2 ^ 53\<close> are represented exactly.\<close>

lemma as_f64_exact:
  assumes "n \<le> 2 ^ 53"
  shows "as_f64 n = of_nat n"
proof (cases "n = 0")
  case False
  let ?x = "of_nat n :: rat"
  have p: "0 < ?x" using False by simp
  have g: "0 \<le> log2_floor ?x" using False by (intro log2_floor_ge) (simp add: pow2_def)
  have "n < 2 ^ 54" using assms by (rule order.strict_trans1) simp
  then have "?x < pow2 54" using of_nat_less_pow2 [of n 54] by simp
  then have u: "log2_floor ?x < 54" by (rule log2_floor_less [OF p])
  have e: "f64_exponent ?x = log2_floor ?x - 52" using g by (simp add: f64_exponent_def)
  have "\<exists>k. ?x / pow2 (f64_exponent ?x) = of_int k"
  proof (cases "log2_floor ?x = 53")
    case True
    have "n = 2 ^ 53"
    proof (rule ccontr)
      assume "n \<noteq> 2 ^ 53"
      with assms have "n < 2 ^ 53" by simp
      then have "?x < pow2 53" using of_nat_less_pow2 [of n 53] by simp
      from log2_floor_less [OF p this] True show False by simp
    qed
    moreover have "pow2 (f64_exponent ?x) = 2" unfolding e True by (simp add: pow2_def)
    ultimately have "?x / pow2 (f64_exponent ?x) = of_int (2 ^ 52)" by simp
    then show ?thesis by blast
  next
    case False
    then have "f64_exponent ?x \<le> 0" using u e by simp
    then have "?x / pow2 (f64_exponent ?x) = of_int (int n * 2 ^ nat (- f64_exponent ?x))"
      by (simp add: pow2_def)
    then show ?thesis by blast
  qed
  then show ?thesis using round_f64_exact by (auto simp: as_f64_def)
qed (simp add: as_f64_def round_f64_def)

lemma round_f64_below_1:
  assumes "0 < x" and "x < 1"
  shows "\<bar>round_f64 x - x\<bar> \<le> 1 / 2 ^ 54"
proof -
  have "log2_floor x < 0" using log2_floor_less [of x 0] assms by (simp add: pow2_def)
  then have "f64_exponent x \<le> - 53" by (simp add: f64_exponent_def)
  then have "pow2 (f64_exponent x) \<le> pow2 (- 53)" by (rule pow2_mono)
  then show ?thesis using round_f64_error [OF assms(1)] by (simp add: pow2_def)
qed

lemma round_f64_pos:
  assumes "pow2 (- 1022) \<le> x"
  shows "0 < round_f64 x"
proof -
  let ?u = "pow2 (f64_exponent x)"
  have x: "0 < x" using assms pow2_pos(1) [of "- 1022"] by linarith
  have "f64_exponent x = log2_floor x - 52"
    using log2_floor_ge [OF assms] by (simp add: f64_exponent_def)
  then have "?u \<le> pow2 (log2_floor x)" by (simp add: pow2_mono)
  also have "\<dots> \<le> x" by (rule log2_floor_bounds(1) [OF x])
  finally have "of_int 1 \<le> x / ?u" by simp
  from round_even_ge [OF this] have "0 < round_even (x / ?u)" by simp
  then show ?thesis using x by (simp add: round_f64_def)
qed

lemma ratio_bounds:
  assumes "a \<le> b" and "0 < b" and "b \<le> 2 ^ 53"
  defines "u \<equiv> f64_div (as_f64 a) (as_f64 b)"
  shows "0 \<le> u" "u \<le> 1" "u = 0 \<longleftrightarrow> a = 0" "u = 1 \<longleftrightarrow> a = b" "\<bar>u - of_nat a / of_nat b\<bar> \<le> 1 / 2 ^ 54"
proof -
  let ?x = "of_nat a / of_nat b :: rat"
  have u: "u = round_f64 ?x"
    using assms(1,3) as_f64_exact [of a] as_f64_exact [of b] by (simp add: u_def f64_div_def)
  have c: "0 \<le> u \<and> u \<le> 1 \<and> (u = 0 \<longleftrightarrow> a = 0) \<and> (u = 1 \<longleftrightarrow> a = b) \<and> \<bar>u - ?x\<bar> \<le> 1 / 2 ^ 54"
  proof (cases "a = 0 \<or> a = b")
    case True
    have "round_f64 1 = 1" using as_f64_exact [of 1] by (simp add: as_f64_def)
    then show ?thesis using True assms(2) u by (auto simp: round_f64_def)
  next
    case False
    have x: "0 < ?x" "?x < 1" using False assms(1) by simp_all
    have "a + 1 \<le> b" using False assms(1) by simp
    then have "of_nat (a + 1) \<le> (of_nat b :: rat)" by (simp only: of_nat_le_iff)
    moreover have b: "of_nat b \<le> (2 ^ 53 :: rat)"
      using assms(3) by (metis of_nat_le_iff of_nat_numeral of_nat_power)
    ultimately have up: "?x \<le> 1 - 1 / 2 ^ 53" using assms(2) by (simp add: field_simps)
    have "pow2 (- 1022) \<le> pow2 (- 53)" by (rule pow2_mono) simp
    also have "\<dots> \<le> 1 / of_nat b" using b assms(2) by (simp add: pow2_def field_simps)
    also have "\<dots> \<le> ?x" using False assms(2) by (simp add: divide_right_mono)
    finally have "0 < u" using round_f64_pos u by simp
    moreover have err: "\<bar>u - ?x\<bar> \<le> 1 / 2 ^ 54" using round_f64_below_1 [OF x] u by simp
    moreover have "u < 1"
    proof -
      have "u \<le> 1 / 2 ^ 54 + ?x" using err by (simp only: abs_le_iff diff_le_eq)
      also have "\<dots> \<le> 1 / 2 ^ 54 + (1 - 1 / 2 ^ 53)" using up by (rule add_left_mono)
      also have "\<dots> < 1" by simp
      finally show ?thesis .
    qed
    ultimately show ?thesis using False by simp
  qed
  then show "0 \<le> u" "u \<le> 1" "u = 0 \<longleftrightarrow> a = 0" "u = 1 \<longleftrightarrow> a = b" "\<bar>u - ?x\<bar> \<le> 1 / 2 ^ 54" by blast+
qed

section \<open>Properties\<close>

text \<open>
  C31. The load reported for a live channel is accurate: the ratio lies between 0 and 1, is 0
  exactly when the queue is empty and 1 exactly when it is full, and differs from the exact ratio by
  at most \<open>2 ^ -54\<close>, for every capacity up to \<open>2 ^ 53\<close>.
\<close>

theorem utilization_ratio_bounds:
  assumes "mpsc M queue cap txs rx" and "rx c" and "length (queue c) \<le> cap c" and "0 < cap c"
    and "cap c \<le> 2 ^ 53"
  shows "let u = utilization_ratio (sender_load M c)
    in 0 \<le> u \<and> u \<le> 1 \<and> (u = 0 \<longleftrightarrow> queue c = []) \<and> (u = 1 \<longleftrightarrow> length (queue c) = cap c) \<and>
       \<bar>u - of_nat (length (queue c)) / of_nat (cap c)\<bar> \<le> 1 / 2 ^ 54"
proof -
  have "utilization_ratio (sender_load M c) = f64_div (as_f64 (length (queue c))) (as_f64 (cap c))"
    using assms(2-4) mpsc.mp_capacity_eq [OF assms(1)] mpsc.mp_max_capacity_eq [OF assms(1)]
    by (simp add: utilization_ratio_def sender_load_def pending_messages_def)
  then show ?thesis using ratio_bounds [OF assms(3-5)] by (simp add: Let_def)
qed

theorem utilization_ratio_bounds_witness:
  "utilization_ratio (sender_load bq_ops \<lparr>bq_items = [1, 2, 3 :: nat], bq_cap = 3, bq_txs = 1, bq_rx = True\<rparr>) = 1"
  using utilization_ratio_bounds [OF bq.mpsc_axioms,
      of "\<lparr>bq_items = [1, 2, 3 :: nat], bq_cap = 3, bq_txs = 1, bq_rx = True\<rparr>"]
  by (simp add: Let_def)

end
