(* ===== verification/Wildcard.thy ===== *)
theory Wildcard
  imports Protocol
begin

text \<open>
  The address patterns of \<^verbatim>\<open>src/broker_core/registry/mod.rs\<close> (lines 112 to 225) and the errors of
  \<^verbatim>\<open>registry/error.rs\<close>: recognising and validating a wildcard pattern, the segment-by-segment
  comparison, and the static prefix. A declarative semantics of patterns is given beside the code,
  and the lemmas show that validation accepts exactly the documented patterns, that the comparison
  with a concrete address computes that semantics, and that the comparison of two patterns decides
  whether some concrete address matches both.
\<close>

section \<open>Errors of the registry\<close>

datatype registry_error =
    AddressAlreadyOccupied bytes
  | WildcardConflict bytes bytes
  | ConflictsWithWildcard bytes bytes
  | InvalidWildcardFormat bytes
  | WaiterAlreadyExists
  | PolicyMismatch bytes

section \<open>Patterns\<close>

definition STAR :: u8 where "STAR = 0x2A"

definition star :: bytes where "star = [STAR]"

definition starstar :: bytes where "starstar = [STAR, STAR]"

definition ends_with :: "'a list \<Rightarrow> 'a list \<Rightarrow> bool" where
  "ends_with xs s \<longleftrightarrow> length s \<le> length xs \<and> drop (length xs - length s) xs = s"

definition is_wildcard :: "bytes \<Rightarrow> bool" where
  "is_wildcard a \<longleftrightarrow> STAR \<in> set a"

text \<open>A value in single quotes inside a formatted error message.\<close>

definition quoted :: "bytes \<Rightarrow> bytes" where
  "quoted s = [0x27] @ s @ [0x27]"

text \<open>The loop over the segments, with the flag \<open>found_starstar\<close>.\<close>

fun validate_segments :: "bytes \<Rightarrow> bool \<Rightarrow> bytes list \<Rightarrow> registry_error + unit" where
  "validate_segments pattern found [] = Inr ()"
| "validate_segments pattern found (seg # segs) =
     (if seg = [] then
        Inl (InvalidWildcardFormat (ascii ''Empty segment in pattern '' @ quoted pattern))
      else if found then
        Inl (InvalidWildcardFormat
          (quoted starstar @ ascii '' must be the last segment in pattern '' @ quoted pattern))
      else if seg = starstar then validate_segments pattern True segs
      else if seg = star then validate_segments pattern found segs
      else if STAR \<in> set seg then
        Inl (InvalidWildcardFormat
          (ascii ''Invalid wildcard segment '' @ quoted seg @ ascii '' in pattern '' @ quoted pattern))
      else validate_segments pattern found segs)"

definition validate_wildcard_pattern :: "bytes \<Rightarrow> registry_error + unit" where
  "validate_wildcard_pattern pattern =
     (if pattern = [] then Inl (InvalidWildcardFormat (ascii ''Pattern cannot be empty''))
      else if pattern = starstar then
        Inl (InvalidWildcardFormat (ascii ''Global '' @ quoted starstar @
          ascii '' wildcard is not allowed; pattern must have at least one static prefix segment''))
      else if hd pattern = STAR then
        Inl (InvalidWildcardFormat (ascii ''Pattern cannot start with '' @ quoted star @
          ascii '' or be a global '' @ quoted star @ ascii '' wildcard; must have a static prefix''))
      else validate_segments pattern False (split_on COLON pattern))"

text \<open>
  The comparison loop of \<^verbatim>\<open>compare_segments_bytes\<close>: the two lists are what the two iterators
  have left; the equations are the arms of the source's \<^verbatim>\<open>match\<close>, in its order.
\<close>

fun compare_loop :: "bytes list \<Rightarrow> bytes list \<Rightarrow> bool \<Rightarrow> bool" where
  "compare_loop [] [] both = True"
| "compare_loop [] (b # ts) both = (if b = starstar \<and> both then True else False)"
| "compare_loop (a # ps) [] both =
     (if a = starstar \<and> both then True
      else if a = starstar then ps = []
      else False)"
| "compare_loop (a # ps) (b # ts) both =
     (if a = starstar \<and> both then True
      else if b = starstar \<and> both then True
      else if a = starstar then ps = []
      else if a \<noteq> star \<and> b \<noteq> star \<and> a \<noteq> b then False
      else compare_loop ps ts both)"

definition compare_segments_bytes :: "bytes \<Rightarrow> bytes \<Rightarrow> bool \<Rightarrow> bool" where
  "compare_segments_bytes pattern target both =
     compare_loop (split_on COLON pattern) (split_on COLON target) both"

definition static_prefix_bytes :: "bytes \<Rightarrow> bytes" where
  "static_prefix_bytes pattern = takeWhile (\<lambda>b. b \<noteq> STAR) pattern"

section \<open>What patterns mean\<close>

text \<open>
  A pattern is a list of segments, each a literal or \<open>*\<close>, except that the last may be \<open>**\<close>. A
  literal matches itself, \<open>*\<close> any one segment, \<open>**\<close> any number of trailing segments.
\<close>

definition plain_segment :: "bytes \<Rightarrow> bool" where
  "plain_segment s \<longleftrightarrow> s \<noteq> [] \<and> (s = star \<or> STAR \<notin> set s)"

definition segments_ok :: "bytes list \<Rightarrow> bool" where
  "segments_ok ss \<longleftrightarrow> ss \<noteq> [] \<and> (\<forall>s\<in>set (butlast ss). plain_segment s) \<and>
     (plain_segment (last ss) \<or> last ss = starstar)"

definition pattern_spec :: "bytes \<Rightarrow> bool" where
  "pattern_spec p \<longleftrightarrow> segments_ok (split_on COLON p) \<and> STAR \<notin> set (hd (split_on COLON p))"

definition concrete :: "bytes \<Rightarrow> bool" where
  "concrete a \<longleftrightarrow> STAR \<notin> set a"

definition segment_matches :: "bytes \<Rightarrow> bytes \<Rightarrow> bool" where
  "segment_matches p s \<longleftrightarrow> p = star \<or> p = s"

definition segments_match :: "bytes list \<Rightarrow> bytes list \<Rightarrow> bool" where
  "segments_match ps ss \<longleftrightarrow>
     (if ps \<noteq> [] \<and> last ps = starstar
      then length (butlast ps) \<le> length ss \<and>
           list_all2 segment_matches (butlast ps) (take (length (butlast ps)) ss)
      else list_all2 segment_matches ps ss)"

definition pattern_matches :: "bytes \<Rightarrow> bytes \<Rightarrow> bool" where
  "pattern_matches p a \<longleftrightarrow> segments_match (split_on COLON p) (split_on COLON a)"

lemmas star_defs = star_def starstar_def STAR_def

lemma star_neq [simp]: "star \<noteq> starstar" "starstar \<noteq> star" "star \<noteq> []" "starstar \<noteq> []"
  "[] \<noteq> star" "[] \<noteq> starstar"
  by (simp_all add: star_def starstar_def)

lemma STAR_in [simp]: "STAR \<in> set star" "STAR \<in> set starstar"
  by (simp_all add: star_def starstar_def)

lemma STAR_neq_COLON [simp]: "STAR \<noteq> COLON" "COLON \<noteq> STAR"
  by (simp_all add: STAR_def COLON_def)

lemma COLON_notin [simp]: "COLON \<notin> set star" "COLON \<notin> set starstar"
  by (simp_all add: star_def starstar_def)

lemma starstar_not_plain [simp]: "\<not> plain_segment starstar"
  by (simp add: plain_segment_def)

lemma concrete_segments: "concrete a \<longleftrightarrow> (\<forall>s\<in>set (split_on COLON a). STAR \<notin> set s)"
proof
  assume "concrete a"
  then show "\<forall>s\<in>set (split_on COLON a). STAR \<notin> set s"
    using set_split_on_subset [of _ COLON a] by (auto simp: concrete_def)
next
  assume "\<forall>s\<in>set (split_on COLON a). STAR \<notin> set s"
  then show "concrete a"
    unfolding concrete_def using STAR_neq_COLON(1) by (metis mem_split_onE)
qed

section \<open>Validation\<close>

lemma validate_segments_found:
  "validate_segments pat True ss = Inr () \<longleftrightarrow> ss = []"
  by (cases ss) auto

lemma validate_segments_iff:
  "ss \<noteq> [] \<Longrightarrow> validate_segments pat False ss = Inr () \<longleftrightarrow> segments_ok ss"
proof (induction ss)
  case (Cons s ss)
  show ?case
  proof (cases "ss = []")
    case True
    then show ?thesis
      by (auto simp: segments_ok_def plain_segment_def validate_segments_found)
  next
    case False
    then have "validate_segments pat False ss = Inr () \<longleftrightarrow> segments_ok ss"
      by (rule Cons.IH)
    with False show ?thesis
      by (auto simp: segments_ok_def plain_segment_def validate_segments_found)
  qed
qed simp

lemma validate_wildcard_pattern_Inr: "validate_wildcard_pattern p = Inr () \<longleftrightarrow> pattern_spec p"
proof -
  let ?ss = "split_on COLON p"
  have "p = [] \<Longrightarrow> \<not> segments_ok ?ss" by (simp add: segments_ok_def plain_segment_def)
  moreover have "STAR \<notin> set (hd ?ss) \<longleftrightarrow> hd p \<noteq> STAR" if ok: "segments_ok ?ss" and ne: "p \<noteq> []"
  proof -
    have h: "plain_segment (hd ?ss) \<or> hd ?ss = starstar"
      using ok by (cases ?ss) (auto simp: segments_ok_def split: if_splits)
    obtain x xs where p: "p = x # xs" using ne by (cases p) auto
    then have "x \<noteq> COLON \<and> hd (hd ?ss) = x" using h by (auto simp: plain_segment_def)
    then show ?thesis using h p by (auto simp: plain_segment_def star_def starstar_def)
  qed
  ultimately show ?thesis
    by (auto simp: validate_wildcard_pattern_def pattern_spec_def validate_segments_iff
        split_on_single starstar_def STAR_def COLON_def)
qed

section \<open>Matching a concrete address\<close>

lemma segments_ok_Cons:
  "ss \<noteq> [] \<Longrightarrow> segments_ok (s # ss) \<longleftrightarrow> plain_segment s \<and> segments_ok ss"
  by (auto simp: segments_ok_def)

lemma segments_ok_single: "segments_ok [s] \<longleftrightarrow> plain_segment s \<or> s = starstar"
  by (simp add: segments_ok_def)

lemma segments_ok_tl: "segments_ok (s # ss) \<Longrightarrow> ss = [] \<or> segments_ok ss"
  using segments_ok_Cons by blast

lemma segments_ok_starstar [simp]: "segments_ok (starstar # ss) \<longleftrightarrow> ss = []"
  by (cases "ss = []") (simp_all add: segments_ok_Cons segments_ok_single)

lemma segments_match_Nil: "segments_match [] ss \<longleftrightarrow> ss = []"
  by (simp add: segments_match_def)

lemma segments_match_starstar: "segments_match [starstar] ss"
  by (simp add: segments_match_def)

lemma segments_match_Cons:
  "p \<noteq> starstar \<Longrightarrow>
   segments_match (p # ps) ss \<longleftrightarrow> (\<exists>t ts. ss = t # ts \<and> segment_matches p t \<and> segments_match ps ts)"
  by (cases ss; cases "ps = []") (auto simp: segments_match_def take_Cons')

lemma plain_not_starstar [simp]: "plain_segment s \<Longrightarrow> s \<noteq> starstar"
  by auto

lemma compare_loop_concrete:
  "ps = [] \<or> segments_ok ps \<Longrightarrow> (\<forall>s\<in>set ss. STAR \<notin> set s) \<Longrightarrow>
   compare_loop ps ss False \<longleftrightarrow> segments_match ps ss"
proof (induction ps ss False rule: compare_loop.induct)
  case (3 a ps)
  then show ?case
    by (cases "a = starstar"; cases "ps = []")
      (auto simp: segments_match_starstar segments_match_Cons segments_ok_Cons segments_ok_single)
next
  case (4 a ps b ts)
  have b: "b \<noteq> star" using 4 by auto
  show ?case
  proof (cases "a = starstar")
    case True
    then have "ps = []" using 4 by (cases "ps = []") (auto simp: segments_ok_Cons)
    with True show ?thesis by (simp add: segments_match_starstar)
  next
    case False
    have "ps = [] \<or> segments_ok ps" using 4 by (cases "ps = []") (auto simp: segments_ok_Cons)
    with False b 4 show ?thesis
      by (auto simp: segments_match_Cons segment_matches_def)
  qed
qed (auto simp: segments_match_Nil)

lemma compare_concrete:
  "pattern_spec p \<Longrightarrow> concrete a \<Longrightarrow> compare_segments_bytes p a False \<longleftrightarrow> pattern_matches p a"
  by (simp add: compare_segments_bytes_def pattern_matches_def compare_loop_concrete pattern_spec_def
      concrete_segments)

section \<open>Patterns that overlap\<close>

lemma compare_loop_both_sym: "compare_loop ps qs True = compare_loop qs ps True"
  by (induction ps qs True rule: compare_loop.induct) auto

text \<open>An address that two overlapping patterns share, with \<open>x\<close> for the segments both leave open.\<close>

definition fill :: "bytes list \<Rightarrow> bytes list" where
  "fill ps = map (\<lambda>s. if s = star then [0x78] else s) (filter (\<lambda>s. s \<noteq> starstar) ps)"

fun common :: "bytes list \<Rightarrow> bytes list \<Rightarrow> bytes list" where
  "common [] qs = []"
| "common ps [] = []"
| "common (p # ps) (q # qs) =
     (if p = starstar then fill (q # qs)
      else if q = starstar then fill (p # ps)
      else (if p \<noteq> star then p else if q \<noteq> star then q else [0x78]) # common ps qs)"

lemma segments_match_fill: "segments_ok ps \<Longrightarrow> segments_match ps (fill ps)"
proof (induction ps)
  case (Cons p ps)
  show ?case
  proof (cases "p = starstar")
    case True
    with Cons show ?thesis
      by (cases "ps = []") (auto simp: segments_ok_Cons segments_match_starstar)
  next
    case False
    with Cons show ?thesis
      by (cases "ps = []")
        (auto simp: segments_ok_Cons segments_match_Cons segments_match_Nil fill_def segment_matches_def)
  qed
qed (simp add: segments_ok_def)

lemma segments_ok_plain: "segments_ok ps \<Longrightarrow> p \<in> set ps \<Longrightarrow> p \<noteq> starstar \<Longrightarrow> plain_segment p"
  by (induction ps) (auto simp: segments_ok_def split: if_splits)

text \<open>The segments an example address may have.\<close>

definition address_segment :: "bytes \<Rightarrow> bool" where
  "address_segment s \<longleftrightarrow> s \<noteq> [] \<and> STAR \<notin> set s \<and> COLON \<notin> set s"

lemma address_segment_x: "address_segment [0x78]"
  by (simp add: address_segment_def STAR_def COLON_def)

lemma address_segment_plain:
  "plain_segment p \<Longrightarrow> p \<noteq> star \<Longrightarrow> COLON \<notin> set p \<Longrightarrow> address_segment p"
  by (simp add: address_segment_def plain_segment_def)

lemma fill_segments:
  assumes "segments_ok ps" and "\<forall>s\<in>set ps. COLON \<notin> set s" and "s \<in> set (fill ps)"
  shows "address_segment s"
proof -
  obtain p where p: "p \<in> set ps" "p \<noteq> starstar" "s = (if p = star then [0x78] else p)"
    using assms(3) by (auto simp: fill_def)
  then have "plain_segment p" using assms(1) segments_ok_plain by blast
  with p assms(2) show ?thesis by (simp add: address_segment_x address_segment_plain)
qed

lemma common_segments:
  assumes "ps = [] \<or> segments_ok ps" and "qs = [] \<or> segments_ok qs"
    and "\<forall>s\<in>set ps \<union> set qs. COLON \<notin> set s" and "s \<in> set (common ps qs)"
  shows "address_segment s"
  using assms
proof (induction ps qs rule: common.induct)
  case (3 p ps q qs)
  have ok: "segments_ok (p # ps)" "segments_ok (q # qs)" using "3.prems" by auto
  show ?case
  proof (cases "p = starstar \<or> q = starstar")
    case True
    with "3.prems" ok fill_segments [of "q # qs" s] fill_segments [of "p # ps" s] show ?thesis
      by (auto split: if_splits)
  next
    case False
    then have pl: "plain_segment p" "plain_segment q" using ok segments_ok_plain by auto
    have tl: "ps = [] \<or> segments_ok ps" "qs = [] \<or> segments_ok qs"
      using ok by (auto dest: segments_ok_tl)
    show ?thesis
    proof (cases "s \<in> set (common ps qs)")
      case True
      with "3.IH" "3.prems" False tl show ?thesis by auto
    next
      case s: False
      with "3.prems" False pl show ?thesis
        by (auto simp: address_segment_x address_segment_plain split: if_splits)
    qed
  qed
qed simp_all

lemma common_match:
  assumes "compare_loop ps qs True" and "ps = [] \<or> segments_ok ps" and "qs = [] \<or> segments_ok qs"
  shows "segments_match ps (common ps qs) \<and> segments_match qs (common ps qs)"
  using assms
proof (induction ps qs rule: common.induct)
  case (1 qs)
  then show ?case
    by (cases qs) (auto simp: segments_match_Nil segments_ok_single segments_match_starstar segments_ok_Cons
        split: if_splits)
next
  case (2 p ps)
  then show ?case
    by (cases ps) (auto simp: segments_match_Nil segments_ok_single segments_match_starstar segments_ok_Cons
        split: if_splits)
next
  case (3 p ps q qs)
  have ok: "segments_ok (p # ps)" "segments_ok (q # qs)" using "3.prems" by auto
  have tl: "ps = [] \<or> segments_ok ps" "qs = [] \<or> segments_ok qs"
    "p = starstar \<Longrightarrow> ps = []" "q = starstar \<Longrightarrow> qs = []"
    using ok by (auto dest: segments_ok_tl)
  show ?case
  proof (cases "p = starstar \<or> q = starstar")
    case True
    with ok tl show ?thesis
      by (auto simp: segments_match_starstar segments_match_fill)
  next
    case False
    with "3.prems" "3.IH" tl show ?thesis
      by (auto simp: segments_match_Cons segment_matches_def split: if_splits)
  qed
qed

lemma common_overlap:
  assumes "segments_match ps ss" and "segments_match qs ss" and "\<forall>s\<in>set ss. STAR \<notin> set s"
    and "ps = [] \<or> segments_ok ps" and "qs = [] \<or> segments_ok qs"
  shows "compare_loop ps qs True"
  using assms
proof (induction ps qs True arbitrary: ss rule: compare_loop.induct)
  case (2 b ts)
  then show ?case by (cases "b = starstar") (auto simp: segments_match_Nil segments_match_Cons)
next
  case (3 a ps)
  then show ?case by (cases "a = starstar") (auto simp: segments_match_Nil segments_match_Cons)
next
  case (4 a ps b ts)
  show ?case
  proof (cases "a = starstar \<or> b = starstar")
    case False
    then obtain t us where "ss = t # us" "segment_matches a t" "segment_matches b t"
        "segments_match ps us" "segments_match ts us"
      using "4.prems" by (auto simp: segments_match_Cons)
    moreover have "ps = [] \<or> segments_ok ps" "ts = [] \<or> segments_ok ts"
      using "4.prems"(4,5) by (auto dest: segments_ok_tl)
    ultimately show ?thesis
      using False "4.hyps" "4.prems"(3) by (auto simp: segment_matches_def)
  qed auto
qed auto

lemma split_pattern_colon: "\<forall>s\<in>set (split_on COLON p). COLON \<notin> set s"
  by (simp add: split_on_segments)

lemma pattern_spec_hd:
  "pattern_spec p \<Longrightarrow> hd (split_on COLON p) \<noteq> starstar"
  by (auto simp: pattern_spec_def)

lemma compare_both_iff:
  assumes p: "pattern_spec p" and q: "pattern_spec q"
  shows "compare_segments_bytes p q True \<longleftrightarrow>
    (\<exists>a. concrete a \<and> pattern_matches p a \<and> pattern_matches q a)" (is "?L \<longleftrightarrow> ?R")
proof
  let ?ps = "split_on COLON p" and ?qs = "split_on COLON q"
  let ?cs = "common ?ps ?qs"
  assume ?L
  then have m: "segments_match ?ps ?cs" "segments_match ?qs ?cs"
    using common_match p q by (auto simp: compare_segments_bytes_def pattern_spec_def)
  have c: "\<forall>s\<in>set ?cs. address_segment s"
    using common_segments [of ?ps ?qs] p q split_pattern_colon by (auto simp: pattern_spec_def)
  have "?cs \<noteq> []"
    using pattern_spec_hd [OF p] pattern_spec_hd [OF q] by (cases ?ps; cases ?qs) auto
  then have sp: "split_on COLON (join_with COLON ?cs) = ?cs"
    using c by (intro split_join) (auto simp: address_segment_def)
  show ?R
    by (rule exI [of _ "join_with COLON ?cs"])
      (use m c in \<open>simp add: pattern_matches_def sp concrete_segments address_segment_def\<close>)
next
  assume ?R
  then show ?L
    using common_overlap p q
    by (auto simp: compare_segments_bytes_def pattern_matches_def pattern_spec_def concrete_segments)
qed

section \<open>The static prefix\<close>

text \<open>A wildcard pattern as its literal head, its first wildcard segment and the rest.\<close>

lemma pattern_split:
  assumes "pattern_spec p" and "is_wildcard p"
  obtains xs s ys where "split_on COLON p = xs @ s # ys" and "xs \<noteq> []"
    and "\<forall>x\<in>set xs. address_segment x" and "s = star \<or> (s = starstar \<and> ys = [])"
proof -
  let ?ss = "split_on COLON p"
  have "\<exists>s\<in>set ?ss. STAR \<in> set s"
    using assms(2) concrete_segments [of p] by (auto simp: is_wildcard_def concrete_def)
  then obtain xs s ys where ss: "?ss = xs @ s # ys" and s: "STAR \<in> set s"
    and xs: "\<forall>x\<in>set xs. STAR \<notin> set x"
    using split_list_first_prop [of ?ss "\<lambda>s. STAR \<in> set s"] by blast
  have ok: "segments_ok ?ss" and hd: "STAR \<notin> set (hd ?ss)"
    using assms(1) by (auto simp: pattern_spec_def)
  have "xs \<noteq> []" using ss s hd by auto
  moreover have "address_segment x" if "x \<in> set xs" for x
  proof -
    have "x \<noteq> starstar" using xs that by auto
    then have "plain_segment x"
      using segments_ok_plain [OF ok, of x] that ss by simp
    moreover have "x \<noteq> star" using xs that by auto
    moreover have "COLON \<notin> set x"
      using split_pattern_colon [of p] that ss by auto
    ultimately show ?thesis by (rule address_segment_plain)
  qed
  moreover have "s = star \<or> (s = starstar \<and> ys = [])"
  proof (cases "s = starstar")
    case True
    have "starstar \<notin> set (butlast ?ss)" using ok by (auto simp: segments_ok_def)
    then have "ys = []" using ss True by (auto simp: butlast_append split: if_splits)
    with True show ?thesis by simp
  next
    case False
    then have "plain_segment s" using segments_ok_plain [OF ok, of s] ss by simp
    with s show ?thesis by (simp add: plain_segment_def)
  qed
  ultimately show thesis using ss that by blast
qed

lemma join_concrete: "\<forall>x\<in>set xs. address_segment x \<Longrightarrow> STAR \<notin> set (join_with COLON xs)"
  using set_join_with [of COLON xs] STAR_neq_COLON by (fastforce simp: address_segment_def)

lemma static_prefix_join:
  assumes "split_on COLON p = xs @ s # ys" and "xs \<noteq> []" and "\<forall>x\<in>set xs. address_segment x"
    and "s = star \<or> s = starstar"
  shows "static_prefix_bytes p = join_with COLON xs @ [COLON]"
proof -
  have p: "p = join_with COLON xs @ COLON # join_with COLON (s # ys)"
    using assms(1,2) join_split [of COLON p] prefix_join_with [of xs "s # ys" COLON] by simp
  obtain z where z: "join_with COLON (s # ys) = STAR # z"
    using assms(4) by (auto simp: star_def starstar_def join_with_head)
  have "takeWhile (\<lambda>b. b \<noteq> STAR) (join_with COLON xs @ COLON # STAR # z) = join_with COLON xs @ [COLON]"
    using join_concrete [OF assms(3)] by (auto simp: takeWhile_append2 intro: takeWhile_append2 [THEN trans])
  then show ?thesis by (simp add: static_prefix_bytes_def p z)
qed

lemma prefix_join_append:
  "xs \<noteq> [] \<Longrightarrow> ts \<noteq> [] \<Longrightarrow> prefix (join_with c xs @ [c]) (join_with c (xs @ ts))"
  by (simp add: prefix_join_with prefix_def)

lemma segments_match_literal:
  "\<forall>x\<in>set xs. address_segment x \<Longrightarrow> segments_match (xs @ ps) ss \<longleftrightarrow>
   (\<exists>ts. ss = xs @ ts \<and> segments_match ps ts)"
proof (induction xs arbitrary: ss)
  case (Cons x xs)
  have "x \<noteq> star" "x \<noteq> starstar" using Cons.prems by (auto simp: address_segment_def)
  with Cons show ?case by (auto simp: segments_match_Cons segment_matches_def)
qed simp

text \<open>
  The static prefix of a pattern that does not end in \<open>**\<close> is a prefix of every address it matches;
  a pattern ending in \<open>**\<close> misses one address, the one with no trailing segment.
\<close>

lemma static_prefix_matches:
  assumes "pattern_spec p" and "is_wildcard p" and "pattern_matches p a"
  shows "prefix (static_prefix_bytes p) a \<or>
    (static_prefix_bytes p = a @ [COLON] \<and> p = a @ COLON # starstar)"
proof -
  obtain xs s ys where sp: "split_on COLON p = xs @ s # ys" "xs \<noteq> []"
      "\<forall>x\<in>set xs. address_segment x" "s = star \<or> (s = starstar \<and> ys = [])"
    using pattern_split [OF assms(1,2)] by metis
  have st: "static_prefix_bytes p = join_with COLON xs @ [COLON]"
    using static_prefix_join [OF sp(1-3)] sp(4) by blast
  obtain ts where ts: "split_on COLON a = xs @ ts" "segments_match (s # ys) ts"
    using assms(3) sp segments_match_literal [of xs "s # ys"] by (auto simp: pattern_matches_def)
  have a: "a = join_with COLON (xs @ ts)" using ts(1) join_split by metis
  show ?thesis
  proof (cases "ts = []")
    case True
    with ts(2) sp(4) have s: "s = starstar" "ys = []" by (auto simp: segments_match_Cons)
    have "p = join_with COLON xs @ COLON # starstar"
      using sp s join_split [of COLON p] prefix_join_with [of xs "[starstar]" COLON] by simp
    with True a st show ?thesis by simp
  next
    case False
    with st a prefix_join_append sp(2) show ?thesis by metis
  qed
qed

lemma ends_with_iff: "ends_with xs s \<longleftrightarrow> (\<exists>ys. xs = ys @ s)"
proof
  assume "ends_with xs s"
  then show "\<exists>ys. xs = ys @ s"
    by (metis append_take_drop_id ends_with_def)
qed (auto simp: ends_with_def)

lemma last_segment:
  obtains pre where "p = pre @ last (split_on COLON p)" and "pre = [] \<or> last pre = COLON"
proof -
  let ?ss = "split_on COLON p"
  have ss: "?ss = butlast ?ss @ [last ?ss]" by simp
  show thesis
  proof (cases "butlast ?ss = []")
    case True
    with ss have "p = last ?ss" by (metis append_Nil join_split join_with.simps(2))
    then show thesis using that [of "[]"] by simp
  next
    case False
    have "p = join_with COLON (butlast ?ss @ [last ?ss])" using ss by (metis join_split)
    moreover have "join_with COLON (butlast ?ss @ [last ?ss]) =
        (join_with COLON (butlast ?ss) @ [COLON]) @ last ?ss"
      using prefix_join_with [OF False, of "[last ?ss]" COLON] by (simp del: append_butlast_last_id)
    ultimately have "p = (join_with COLON (butlast ?ss) @ [COLON]) @ last ?ss" by metis
    then show thesis using that by (metis snoc_eq_iff_butlast)
  qed
qed

lemma ends_with_starstar_iff:
  assumes "pattern_spec p"
  shows "ends_with p starstar \<longleftrightarrow> last (split_on COLON p) = starstar"
proof -
  let ?l = "last (split_on COLON p)"
  obtain pre where p: "p = pre @ ?l" and pre: "pre = [] \<or> last pre = COLON"
    by (rule last_segment)
  have l: "plain_segment ?l \<or> ?l = starstar"
    using assms by (auto simp: pattern_spec_def segments_ok_def)
  show ?thesis
  proof
    assume "ends_with p starstar"
    then obtain ys where ys: "pre @ ?l = ys @ [STAR, STAR]"
      using p by (auto simp: ends_with_iff starstar_def)
    have ne: "?l \<noteq> []" using l by (auto simp: plain_segment_def)
    then have "last ?l = STAR" using arg_cong [OF ys, of last] by (simp add: last_append)
    then have "STAR \<in> set ?l" using ne last_in_set by metis
    then consider "?l = starstar" | "?l = star" using l by (auto simp: plain_segment_def)
    then show "?l = starstar"
    proof cases
      case 2
      with ys have "pre = ys @ [STAR]" by (simp add: star_def)
      with pre show ?thesis by auto
    qed
  next
    assume "?l = starstar"
    with p show "ends_with p starstar" by (metis ends_with_iff)
  qed
qed

section \<open>Properties\<close>

text \<open>
  Validation accepts exactly the patterns without an empty segment, in which every segment is literal
  or \<open>*\<close>, the last possibly \<open>**\<close>, and the first is literal. The rules listed above the function in the
  source do not mention the last condition.
\<close>

theorem validate_wildcard_pattern_iff:
  "validate_wildcard_pattern p = Inr () \<longleftrightarrow> pattern_spec p"
  by (rule validate_wildcard_pattern_Inr)

text \<open>
  On a valid pattern and a concrete address the comparison loop computes the meaning of the
  pattern: \<open>*\<close> one segment, a final \<open>**\<close> any number of trailing segments, none included.
\<close>

theorem compare_segments_matches:
  assumes "pattern_spec p" and "concrete a"
  shows "compare_segments_bytes p a False \<longleftrightarrow> pattern_matches p a"
  using assms by (rule compare_concrete)

text \<open>
  C26. Between two valid patterns the comparison (with wildcards on both sides) decides
  overlap: it is true exactly when some concrete address matches both patterns.
\<close>

theorem compare_segments_overlap:
  assumes "pattern_spec p" and "pattern_spec q"
  shows "compare_segments_bytes p q True \<longleftrightarrow>
    (\<exists>a. concrete a \<and> pattern_matches p a \<and> pattern_matches q a)"
  using assms by (rule compare_both_iff)

section \<open>Witnesses\<close>

lemma pattern_samples:
  "pattern_spec (ascii ''a:*'')" "pattern_spec (ascii ''a:b:**'')" "concrete (ascii ''a:b'')"
  by (simp_all add: pattern_spec_def segments_ok_def plain_segment_def concrete_def COLON_def
      star_defs)

theorem compare_segments_matches_witness:
  "compare_segments_bytes (ascii ''a:b:**'') (ascii ''a:b'') False \<longleftrightarrow>
   pattern_matches (ascii ''a:b:**'') (ascii ''a:b'')"
  using compare_segments_matches [OF pattern_samples(2,3)] .

theorem compare_segments_overlap_witness:
  "compare_segments_bytes (ascii ''a:*'') (ascii ''a:b:**'') True \<longleftrightarrow>
   (\<exists>a. concrete a \<and> pattern_matches (ascii ''a:*'') a \<and> pattern_matches (ascii ''a:b:**'') a)"
  using compare_segments_overlap [OF pattern_samples(1,2)] .

end
