(* ===== verification/Radix.thy ===== *)
theory Radix
  imports Prelude
begin

text \<open>
  The immutable radix tree of the \<^verbatim>\<open>iradix\<close> crate (\<^verbatim>\<open>iradix::sync::Radix<u8, V>\<close>), a
  dependency of the registry: a record of the operations the registry calls, and the locale
  \<open>radix\<close> with the documented behaviour of each (a map from byte-string keys; \<open>walk_prefix\<close>
  visits the entries below a key, \<open>walk_path\<close> the entries on the path from the root to a key,
  \<open>get_ancestor\<close> finds a value stored under a prefix of a key). The locale is interpreted on an
  association list.
\<close>

record ('t, 'v) radix_ops =
  radix_new :: 't
  radix_get :: "'t \<Rightarrow> bytes \<Rightarrow> 'v option"
  radix_insert :: "'t \<Rightarrow> bytes \<Rightarrow> 'v \<Rightarrow> 't"
  radix_remove :: "'t \<Rightarrow> bytes \<Rightarrow> 't"
  radix_is_empty :: "'t \<Rightarrow> bool"
  radix_walk_prefix :: "'t \<Rightarrow> bytes \<Rightarrow> (bytes \<times> 'v) list"
  radix_walk_path :: "'t \<Rightarrow> bytes \<Rightarrow> (bytes \<times> 'v) list"
  radix_get_ancestor :: "'t \<Rightarrow> bytes \<Rightarrow> 'v option"

locale radix =
  fixes R :: "('t, 'v) radix_ops"
  assumes get_new: "radix_get R (radix_new R) k = None"
    and get_insert: "radix_get R (radix_insert R t k v) = (radix_get R t)(k \<mapsto> v)"
    and get_remove: "radix_get R (radix_remove R t k) = (radix_get R t)(k := None)"
    and is_empty: "radix_is_empty R t \<longleftrightarrow> (\<forall>k. radix_get R t k = None)"
    and walk_prefix: "set (radix_walk_prefix R t p) = {(k, v). radix_get R t k = Some v \<and> prefix p k}"
    and walk_path: "set (radix_walk_path R t p) = {(k, v). radix_get R t k = Some v \<and> prefix k p}"
    and ancestor_Some: "radix_get_ancestor R t k = Some v \<Longrightarrow>
      \<exists>p. prefix p k \<and> radix_get R t p = Some v"
    and ancestor_None: "radix_get_ancestor R t k = None \<Longrightarrow> prefix p k \<Longrightarrow> radix_get R t p = None"
begin

lemmas radix_get_simps = get_new get_insert get_remove

lemma walk_path_Nil: "(\<forall>k. prefix k p \<longrightarrow> radix_get R t k = None) \<Longrightarrow> radix_walk_path R t p = []"
  using walk_path [of t p] by (auto simp: set_empty [symmetric] simp del: set_empty)

lemma get_ancestor_None: "(\<forall>k. prefix k p \<longrightarrow> radix_get R t k = None) \<Longrightarrow> radix_get_ancestor R t p = None"
  using ancestor_Some [of t p] by (cases "radix_get_ancestor R t p") auto

end

section \<open>Association lists\<close>

type_synonym 'v alist = "(bytes \<times> 'v) list"

definition alist_drop :: "bytes \<Rightarrow> 'v alist \<Rightarrow> 'v alist" where
  "alist_drop k t = filter (\<lambda>e. fst e \<noteq> k) t"

definition alist_radix :: "('v alist, 'v) radix_ops" where
  "alist_radix = \<lparr>
     radix_new = [],
     radix_get = map_of,
     radix_insert = (\<lambda>t k v. (k, v) # alist_drop k t),
     radix_remove = (\<lambda>t k. alist_drop k t),
     radix_is_empty = (\<lambda>t. t = []),
     radix_walk_prefix = (\<lambda>t p. filter (\<lambda>e. prefix p (fst e) \<and> map_of t (fst e) = Some (snd e)) t),
     radix_walk_path = (\<lambda>t p. filter (\<lambda>e. prefix (fst e) p \<and> map_of t (fst e) = Some (snd e)) t),
     radix_get_ancestor = (\<lambda>t p. map_option snd (find (\<lambda>e. prefix (fst e) p) t)) \<rparr>"

lemma map_of_alist_drop: "map_of (alist_drop k t) = (map_of t)(k := None)"
  by (induction t) (auto simp: alist_drop_def)

lemma map_of_all_None: "(\<forall>k. map_of t k = None) \<longleftrightarrow> t = []"
  by (cases t) (auto dest: spec)

lemma find_prefix_Some:
  "find (\<lambda>e. prefix (fst e) k) t = Some (p, v) \<Longrightarrow> prefix p k \<and> map_of t p = Some v"
  by (induction t) (auto split: if_splits)

interpretation alist: radix alist_radix
proof unfold_locales
  fix t :: "'v alist" and k p v
  show "radix_get_ancestor alist_radix t k = Some v \<Longrightarrow>
      \<exists>p. prefix p k \<and> radix_get alist_radix t p = Some v"
    using find_prefix_Some by (fastforce simp: alist_radix_def)
  show "radix_get_ancestor alist_radix t k = None \<Longrightarrow> prefix p k \<Longrightarrow> radix_get alist_radix t p = None"
    by (auto simp: alist_radix_def find_None_iff map_of_eq_None_iff)
qed (auto simp: alist_radix_def map_of_alist_drop map_of_all_None dest: map_of_SomeD)

end
