(* ===== verification/World.thy ===== *)
theory World
  imports Channel Wildcard Radix
begin

text \<open>
  The state of a process that runs the broker. Everything the source shares through \<^verbatim>\<open>Arc\<close> is
  stored under an identifier, and two \<^verbatim>\<open>Arc\<close>s are \<^verbatim>\<open>ptr_eq\<close> when their identifiers are
  equal: subscription slots, load-balanced groups, dispatcher tasks, message channels, request
  channels and oneshot cells. \<open>inner\<close> is the snapshot that \<^verbatim>\<open>LocalRegistry::inner\<close> (an
  \<^verbatim>\<open>ArcSwap\<close>) holds. An atomic or a lock-protected cell is a field; one operation of the
  model is one critical section of the source. \<open>deps\<close> collects the operations of the crates the
  broker is built on.
\<close>

section \<open>Data\<close>

text \<open>\<^verbatim>\<open>SubscriptionSlot\<close>: the channel of its current sender, and its version.\<close>

record slot =
  slot_sender :: "nat option"
  slot_version :: u64

text \<open>
  \<^verbatim>\<open>LoadBalancedGroup\<close>. \<open>grp_req_count\<close> is \<^verbatim>\<open>Arc::strong_count(&self.req_tx)\<close>, the reference
  of the group itself included.
\<close>

record lb_group =
  grp_slot :: nat
  grp_handle :: "nat option"
  grp_version :: u64
  grp_req :: nat
  grp_req_count :: nat
  grp_address :: bytes
  grp_consumers :: u64

text \<open>
  The background dispatcher of a group, by the \<^verbatim>\<open>.await\<close> or the send it has reached:
  waiting for a consumer's request, holding a token and waiting for a message, about to deliver,
  holding a message whose consumer vanished and waiting for the next one, or ended.
\<close>

datatype dispatcher_pc =
    WaitRequest
  | WaitMessage nat
  | Deliver nat message
  | WaitNext message
  | Finished
  | Aborted

record task =
  task_pc :: dispatcher_pc
  task_abort :: bool
  task_main :: nat
  task_req :: nat
  task_slot :: nat
  task_address :: bytes

datatype routing_policy = Exclusive | LoadBalancedPolicy

datatype route_target = Single nat | LoadBalanced nat

text \<open>
  A \<^verbatim>\<open>ReplyDispatcher\<close>: the shared map from message identifiers to reply cells, the channel its
  listener task reads, and where that task is: waiting for a reply, holding one that is not yet
  dispatched, or ended.
\<close>

datatype listener_pc = Listening | Dispatching message | ListenerEnded

record reply_dispatcher =
  rd_waiters :: "(bytes \<times> nat) list"
  rd_chan :: nat
  rd_pc :: listener_pc
  rd_abort :: bool

record 't registry_inner =
  exact_tree :: 't
  prefix_wildcard_tree :: 't
  single_wildcards :: "(bytes \<times> route_target) list"

record ('t, 'c, 'd, 'o) world =
  next_id :: nat
  chans :: "nat \<rightharpoonup> 'c"
  reqs :: "nat \<rightharpoonup> 'd"
  oneshots :: "nat \<rightharpoonup> 'o"
  slots :: "nat \<Rightarrow> slot"
  groups :: "nat \<Rightarrow> lb_group"
  tasks :: "nat \<rightharpoonup> task"
  dispatchers :: "nat \<Rightarrow> reply_dispatcher"
  inner :: "'t registry_inner"

record ('t, 'c, 'd, 'o) deps =
  d_radix :: "('t, route_target) radix_ops"
  d_msgs :: "('c, message) mpsc_ops"
  d_reqs :: "('d, nat) mpsc_ops"
  d_oneshots :: "('o, message) oneshot_ops"

text \<open>\<^verbatim>\<open>TransportError\<close> of \<^verbatim>\<open>transport/mod.rs\<close>; no code path constructs the I/O case.\<close>

datatype transport_error =
    ConnectionClosed
  | Timeout
  | RecipientNotFound bytes
  | TRegistry registry_error
  | TProtocol protocol_error
  | Unsupported
  | TIo

text \<open>\<^verbatim>\<open>LocalRegistry::new\<close>.\<close>

definition registry_new :: "('t, route_target) radix_ops \<Rightarrow> 't registry_inner" where
  "registry_new R = \<lparr>exact_tree = radix_new R, prefix_wildcard_tree = radix_new R, single_wildcards = []\<rparr>"

text \<open>
  A process that has just started: nothing is allocated and the registry is new. The values of
  the total functions at identifiers that are not allocated play no role.
\<close>

definition world_new :: "('t, 'c, 'd, 'o) deps \<Rightarrow> ('t, 'c, 'd, 'o) world" where
  "world_new E = \<lparr>next_id = 0, chans = Map.empty, reqs = Map.empty, oneshots = Map.empty,
     slots = (\<lambda>_. \<lparr>slot_sender = None, slot_version = 0\<rparr>),
     groups = (\<lambda>_. \<lparr>grp_slot = 0, grp_handle = None, grp_version = 0, grp_req = 0,
       grp_req_count = 0, grp_address = [], grp_consumers = 0\<rparr>),
     tasks = Map.empty,
     dispatchers = (\<lambda>_. \<lparr>rd_waiters = [], rd_chan = 0, rd_pc = ListenerEnded, rd_abort = False\<rparr>),
     inner = registry_new (d_radix E)\<rparr>"

text \<open>The instances of the dependencies given in this development, for evaluation.\<close>

type_synonym std_world =
  "(route_target alist, message bounded_queue, nat bounded_queue, message os_state) world"

definition std_deps ::
    "(route_target alist, message bounded_queue, nat bounded_queue, message os_state) deps" where
  "std_deps = \<lparr>d_radix = alist_radix, d_msgs = bq_ops, d_reqs = bq_ops, d_oneshots = cell_ops\<rparr>"

section \<open>Stored channels\<close>

definition oneshot_drop_rx ::
    "('t, 'c, 'd, 'o) deps \<Rightarrow> nat \<Rightarrow> ('t, 'c, 'd, 'o) world \<Rightarrow> ('t, 'c, 'd, 'o) world" where
  "oneshot_drop_rx E i w =
     w\<lparr>oneshots := (oneshots w)(i := map_option (os_drop_rx (d_oneshots E)) (oneshots w i))\<rparr>"


definition fresh :: "('t, 'c, 'd, 'o) world \<Rightarrow> ('t, 'c, 'd, 'o) world" where
  "fresh w = w\<lparr>next_id := Suc (next_id w)\<rparr>"

definition chan_alloc :: "'c \<Rightarrow> ('t, 'c, 'd, 'o) world \<Rightarrow> nat \<times> ('t, 'c, 'd, 'o) world" where
  "chan_alloc c w = (next_id w, fresh w\<lparr>chans := (chans w)(next_id w \<mapsto> c)\<rparr>)"

definition chan_drop_tx ::
    "('t, 'c, 'd, 'o) deps \<Rightarrow> nat \<Rightarrow> ('t, 'c, 'd, 'o) world \<Rightarrow> ('t, 'c, 'd, 'o) world" where
  "chan_drop_tx E ch w = w\<lparr>chans := (chans w)(ch := map_option (mp_drop_tx (d_msgs E)) (chans w ch))\<rparr>"

definition chan_drop_rx ::
    "('t, 'c, 'd, 'o) deps \<Rightarrow> nat \<Rightarrow> ('t, 'c, 'd, 'o) world \<Rightarrow> ('t, 'c, 'd, 'o) world" where
  "chan_drop_rx E ch w = w\<lparr>chans := (chans w)(ch := map_option (mp_drop_rx (d_msgs E)) (chans w ch))\<rparr>"

definition req_drop_rx ::
    "('t, 'c, 'd, 'o) deps \<Rightarrow> nat \<Rightarrow> ('t, 'c, 'd, 'o) world \<Rightarrow> ('t, 'c, 'd, 'o) world" where
  "req_drop_rx E r w = w\<lparr>reqs := (reqs w)(r := map_option (mp_drop_rx (d_reqs E)) (reqs w r))\<rparr>"

definition oneshot_drop_tx ::
    "('t, 'c, 'd, 'o) deps \<Rightarrow> nat \<Rightarrow> ('t, 'c, 'd, 'o) world \<Rightarrow> ('t, 'c, 'd, 'o) world" where
  "oneshot_drop_tx E i w =
     w\<lparr>oneshots := (oneshots w)(i := map_option (os_drop_tx (d_oneshots E)) (oneshots w i))\<rparr>"

text \<open>\<^verbatim>\<open>Sender<Message>::send\<close> on a stored channel.\<close>

definition chan_send ::
    "('t, 'c, 'd, 'o) deps \<Rightarrow> nat \<Rightarrow> message \<Rightarrow> ('t, 'c, 'd, 'o) world \<Rightarrow>
     (message send_error + ('t, 'c, 'd, 'o) world) poll" where
  "chan_send E ch m w = (case chans w ch of
     None \<Rightarrow> Ready (Inl (SendError m))
   | Some c \<Rightarrow> (case sender_send (d_msgs E) m c of
       Pending \<Rightarrow> Pending
     | Ready (Inl e) \<Rightarrow> Ready (Inl e)
     | Ready (Inr c') \<Rightarrow> Ready (Inr (w\<lparr>chans := (chans w)(ch \<mapsto> c')\<rparr>))))"

definition chan_is_closed :: "('t, 'c, 'd, 'o) deps \<Rightarrow> nat \<Rightarrow> ('t, 'c, 'd, 'o) world \<Rightarrow> bool" where
  "chan_is_closed E ch w = (case chans w ch of None \<Rightarrow> True | Some c \<Rightarrow> sender_is_closed (d_msgs E) c)"

section \<open>Frames\<close>

lemma chan_drop_frame [frame_simps]:
  "inner (chan_drop_tx E ch w) = inner w" "slots (chan_drop_tx E ch w) = slots w"
  "groups (chan_drop_tx E ch w) = groups w" "tasks (chan_drop_tx E ch w) = tasks w"
  "next_id (chan_drop_tx E ch w) = next_id w" "reqs (chan_drop_tx E ch w) = reqs w"
  "oneshots (chan_drop_tx E ch w) = oneshots w"
  "inner (chan_drop_rx E ch w) = inner w" "slots (chan_drop_rx E ch w) = slots w"
  "groups (chan_drop_rx E ch w) = groups w" "tasks (chan_drop_rx E ch w) = tasks w"
  "next_id (chan_drop_rx E ch w) = next_id w" "reqs (chan_drop_rx E ch w) = reqs w"
  "oneshots (chan_drop_rx E ch w) = oneshots w"
  by (simp_all add: chan_drop_tx_def chan_drop_rx_def)

end
