(* ===== verification/Routing.thy ===== *)
theory Routing
  imports World
begin

text \<open>
  \<^verbatim>\<open>registry/slot.rs\<close>, \<^verbatim>\<open>registry/load_balanced_group.rs\<close> and \<^verbatim>\<open>registry/routing.rs\<close>:
  subscription slots, load-balanced groups (the operations on the group; its dispatcher task is in
  theory \<open>Dispatcher\<close>) and route targets. The lemmas describe what each operation leaves
  unchanged, that removing a slot closes its target at once and changes its version, and that
  only the slot's own target reacts to its removal.
\<close>

section \<open>Slots\<close>

definition slot_new :: "nat \<Rightarrow> ('t, 'c, 'd, 'o) world \<Rightarrow> nat \<times> ('t, 'c, 'd, 'o) world" where
  "slot_new ch w = (next_id w,
     fresh w\<lparr>slots := (slots w)(next_id w := \<lparr>slot_sender = Some ch, slot_version = 1\<rparr>)\<rparr>)"

text \<open>Storing into the \<^verbatim>\<open>ArcSwap\<close> drops the sender it held.\<close>

definition drop_sender ::
    "('t, 'c, 'd, 'o) deps \<Rightarrow> nat \<Rightarrow> ('t, 'c, 'd, 'o) world \<Rightarrow> ('t, 'c, 'd, 'o) world" where
  "drop_sender E s w = (case slot_sender (slots w s) of None \<Rightarrow> w | Some ch \<Rightarrow> chan_drop_tx E ch w)"

definition slot_update ::
    "('t, 'c, 'd, 'o) deps \<Rightarrow> nat \<Rightarrow> nat \<Rightarrow> ('t, 'c, 'd, 'o) world \<Rightarrow> ('t, 'c, 'd, 'o) world" where
  "slot_update E s ch w =
     (drop_sender E s w)\<lparr>slots := (slots w)(s :=
        \<lparr>slot_sender = Some ch, slot_version = slot_version (slots w s) + 1\<rparr>)\<rparr>"

definition mark_removed ::
    "('t, 'c, 'd, 'o) deps \<Rightarrow> nat \<Rightarrow> ('t, 'c, 'd, 'o) world \<Rightarrow> ('t, 'c, 'd, 'o) world" where
  "mark_removed E s w =
     (drop_sender E s w)\<lparr>slots := (slots w)(s :=
        \<lparr>slot_sender = None, slot_version = slot_version (slots w s) + 1\<rparr>)\<rparr>"

definition slot_is_closed :: "('t, 'c, 'd, 'o) deps \<Rightarrow> nat \<Rightarrow> ('t, 'c, 'd, 'o) world \<Rightarrow> bool" where
  "slot_is_closed E s w = (case slot_sender (slots w s) of
     Some ch \<Rightarrow> chan_is_closed E ch w
   | None \<Rightarrow> True)"

section \<open>Load-balanced groups\<close>

text \<open>
  \<^verbatim>\<open>LoadBalancedGroup::new\<close>: creates the request channel (which panics on a bad capacity: the
  result \<open>None\<close>), the group, and the dispatcher task, which starts by waiting for a request.
\<close>

definition group_new ::
    "('t, 'c, 'd, 'o) deps \<Rightarrow> nat \<Rightarrow> nat \<Rightarrow> nat \<Rightarrow> bytes \<Rightarrow> ('t, 'c, 'd, 'o) world \<Rightarrow>
     (nat \<times> ('t, 'c, 'd, 'o) world) option" where
  "group_new E s main_receiver req_capacity addr w =
     (case create_request_channel (d_reqs E) req_capacity of
        None \<Rightarrow> None
      | Some d \<Rightarrow>
        let r = next_id w; g = Suc r; t = Suc g in
        Some (g, w\<lparr>next_id := Suc t,
          reqs := (reqs w)(r \<mapsto> d),
          groups := (groups w)(g := \<lparr>grp_slot = s, grp_handle = Some t, grp_version = 1,
            grp_req = r, grp_req_count = 1, grp_address = addr, grp_consumers = 0\<rparr>),
          tasks := (tasks w)(t \<mapsto> \<lparr>task_pc = WaitRequest, task_abort = False,
            task_main = main_receiver, task_req = r, task_slot = s, task_address = addr\<rparr>)\<rparr>))"

text \<open>\<^verbatim>\<open>subscribe\<close> hands out a clone of the \<^verbatim>\<open>Arc\<close> around the request sender.\<close>

definition group_subscribe :: "nat \<Rightarrow> ('t, 'c, 'd, 'o) world \<Rightarrow> nat \<times> ('t, 'c, 'd, 'o) world" where
  "group_subscribe g w = (grp_req (groups w g),
     w\<lparr>groups := (groups w)(g := (groups w g)\<lparr>grp_consumers := grp_consumers (groups w g) + 1,
       grp_req_count := Suc (grp_req_count (groups w g))\<rparr>)\<rparr>)"

definition consumer_count :: "nat \<Rightarrow> ('t, 'c, 'd, 'o) world \<Rightarrow> u64" where
  "consumer_count g w = grp_consumers (groups w g)"

definition group_version :: "nat \<Rightarrow> ('t, 'c, 'd, 'o) world \<Rightarrow> u64" where
  "group_version g w = grp_version (groups w g)"

definition group_is_empty :: "nat \<Rightarrow> ('t, 'c, 'd, 'o) world \<Rightarrow> bool" where
  "group_is_empty g w \<longleftrightarrow> grp_req_count (groups w g) = 1"

text \<open>\<^verbatim>\<open>JoinHandle::abort\<close> requests cancellation; the runtime drops the task's future later.\<close>

definition task_request_abort :: "nat \<Rightarrow> ('t, 'c, 'd, 'o) world \<Rightarrow> ('t, 'c, 'd, 'o) world" where
  "task_request_abort t w =
     w\<lparr>tasks := (tasks w)(t := map_option (\<lambda>k. k\<lparr>task_abort := True\<rparr>) (tasks w t))\<rparr>"

definition take_handle :: "nat \<Rightarrow> ('t, 'c, 'd, 'o) world \<Rightarrow> ('t, 'c, 'd, 'o) world" where
  "take_handle g w = (case grp_handle (groups w g) of
     None \<Rightarrow> w
   | Some t \<Rightarrow> task_request_abort t
       (w\<lparr>groups := (groups w)(g := (groups w g)\<lparr>grp_handle := None\<rparr>)\<rparr>))"

definition group_shutdown ::
    "('t, 'c, 'd, 'o) deps \<Rightarrow> nat \<Rightarrow> ('t, 'c, 'd, 'o) world \<Rightarrow> ('t, 'c, 'd, 'o) world" where
  "group_shutdown E g w =
     (let w1 = take_handle g w;
          w2 = mark_removed E (grp_slot (groups w1 g)) w1
      in w2\<lparr>groups := (groups w2)(g := (groups w2 g)\<lparr>grp_version := grp_version (groups w2 g) + 1\<rparr>)\<rparr>)"

text \<open>\<^verbatim>\<open>fetch_sub\<close> wraps at zero; the last consumer shuts the group down.\<close>

definition remove_consumer ::
    "('t, 'c, 'd, 'o) deps \<Rightarrow> nat \<Rightarrow> ('t, 'c, 'd, 'o) world \<Rightarrow> ('t, 'c, 'd, 'o) world" where
  "remove_consumer E g w =
     (let prev_count = grp_consumers (groups w g);
          w1 = w\<lparr>groups := (groups w)(g := (groups w g)\<lparr>grp_consumers := prev_count - 1\<rparr>)\<rparr>
      in if prev_count = 1 then group_shutdown E g w1 else w1)"

section \<open>Route targets\<close>

definition new_exclusive :: "nat \<Rightarrow> route_target" where
  "new_exclusive s = Single s"

definition new_load_balanced ::
    "('t, 'c, 'd, 'o) deps \<Rightarrow> nat \<Rightarrow> nat \<Rightarrow> nat \<Rightarrow> bytes \<Rightarrow> ('t, 'c, 'd, 'o) world \<Rightarrow>
     (route_target \<times> ('t, 'c, 'd, 'o) world) option" where
  "new_load_balanced E s main_receiver req_capacity addr w =
     (case group_new E s main_receiver req_capacity addr w of
        None \<Rightarrow> None | Some (g, w') \<Rightarrow> Some (LoadBalanced g, w'))"

text \<open>The slot through which a target is reached.\<close>

definition target_slot :: "('t, 'c, 'd, 'o) world \<Rightarrow> route_target \<Rightarrow> nat" where
  "target_slot w t = (case t of Single s \<Rightarrow> s | LoadBalanced g \<Rightarrow> grp_slot (groups w g))"

text \<open>\<^verbatim>\<open>sender.send(message).await.map_err(|_| ConnectionClosed)\<close> on the loaded sender.\<close>

definition slot_send ::
    "('t, 'c, 'd, 'o) deps \<Rightarrow> nat \<Rightarrow> message \<Rightarrow> ('t, 'c, 'd, 'o) world \<Rightarrow>
     (transport_error + ('t, 'c, 'd, 'o) world) poll" where
  "slot_send E s m w = (case slot_sender (slots w s) of
     None \<Rightarrow> Ready (Inl ConnectionClosed)
   | Some ch \<Rightarrow> (case chan_send E ch m w of
       Pending \<Rightarrow> Pending
     | Ready (Inl _) \<Rightarrow> Ready (Inl ConnectionClosed)
     | Ready (Inr w') \<Rightarrow> Ready (Inr w')))"

definition target_send ::
    "('t, 'c, 'd, 'o) deps \<Rightarrow> route_target \<Rightarrow> message \<Rightarrow> ('t, 'c, 'd, 'o) world \<Rightarrow>
     (transport_error + ('t, 'c, 'd, 'o) world) poll" where
  "target_send E t m w = (case t of
     Single s \<Rightarrow> slot_send E s m w
   | LoadBalanced g \<Rightarrow> slot_send E (grp_slot (groups w g)) m w)"

definition remove_slot ::
    "('t, 'c, 'd, 'o) deps \<Rightarrow> route_target \<Rightarrow> nat \<Rightarrow> ('t, 'c, 'd, 'o) world \<Rightarrow>
     bool \<times> ('t, 'c, 'd, 'o) world" where
  "remove_slot E t s w = (case t of
     Single existing \<Rightarrow> (if existing = s then (True, mark_removed E existing w) else (False, w))
   | LoadBalanced g \<Rightarrow>
       (if grp_slot (groups w g) = s then (True, group_shutdown E g w) else (False, w)))"

definition target_request_sender ::
    "route_target \<Rightarrow> ('t, 'c, 'd, 'o) world \<Rightarrow> nat option \<times> ('t, 'c, 'd, 'o) world" where
  "target_request_sender t w = (case t of
     LoadBalanced g \<Rightarrow> (let (r, w') = group_subscribe g w in (Some r, w'))
   | Single _ \<Rightarrow> (None, w))"

definition target_load_balanced_group :: "route_target \<Rightarrow> nat option" where
  "target_load_balanced_group t = (case t of LoadBalanced g \<Rightarrow> Some g | Single _ \<Rightarrow> None)"

definition target_version :: "route_target \<Rightarrow> ('t, 'c, 'd, 'o) world \<Rightarrow> u64" where
  "target_version t w = (case t of
     Single s \<Rightarrow> slot_version (slots w s)
   | LoadBalanced g \<Rightarrow> group_version g w)"

definition target_is_closed :: "('t, 'c, 'd, 'o) deps \<Rightarrow> route_target \<Rightarrow> ('t, 'c, 'd, 'o) world \<Rightarrow> bool" where
  "target_is_closed E t w = (case t of
     Single s \<Rightarrow> slot_is_closed E s w
   | LoadBalanced g \<Rightarrow> group_is_empty g w)"

section \<open>Frames\<close>

lemma drop_sender_frame [frame_simps]:
  "inner (drop_sender E s w) = inner w" "slots (drop_sender E s w) = slots w"
  "groups (drop_sender E s w) = groups w" "tasks (drop_sender E s w) = tasks w"
  "next_id (drop_sender E s w) = next_id w" "reqs (drop_sender E s w) = reqs w"
  "oneshots (drop_sender E s w) = oneshots w"
  by (simp_all add: drop_sender_def frame_simps split: option.split)

lemma mark_removed_frame [frame_simps]:
  "inner (mark_removed E s w) = inner w" "groups (mark_removed E s w) = groups w"
  "tasks (mark_removed E s w) = tasks w" "next_id (mark_removed E s w) = next_id w"
  "reqs (mark_removed E s w) = reqs w" "oneshots (mark_removed E s w) = oneshots w"
  by (simp_all add: mark_removed_def frame_simps)

lemma take_handle_frame [frame_simps]:
  "inner (take_handle g w) = inner w" "slots (take_handle g w) = slots w"
  "chans (take_handle g w) = chans w" "next_id (take_handle g w) = next_id w"
  "reqs (take_handle g w) = reqs w" "oneshots (take_handle g w) = oneshots w"
  "grp_slot (groups (take_handle g w) h) = grp_slot (groups w h)"
  "grp_version (groups (take_handle g w) h) = grp_version (groups w h)"
  "grp_consumers (groups (take_handle g w) h) = grp_consumers (groups w h)"
  "grp_req (groups (take_handle g w) h) = grp_req (groups w h)"
  "grp_req_count (groups (take_handle g w) h) = grp_req_count (groups w h)"
  by (simp_all add: take_handle_def task_request_abort_def split: option.split)

lemma group_shutdown_frame [frame_simps]:
  "inner (group_shutdown E g w) = inner w" "next_id (group_shutdown E g w) = next_id w"
  "reqs (group_shutdown E g w) = reqs w" "oneshots (group_shutdown E g w) = oneshots w"
  "grp_slot (groups (group_shutdown E g w) h) = grp_slot (groups w h)"
  "grp_req (groups (group_shutdown E g w) h) = grp_req (groups w h)"
  "grp_req_count (groups (group_shutdown E g w) h) = grp_req_count (groups w h)"
  by (simp_all add: group_shutdown_def frame_simps Let_def)

lemma remove_slot_frame [frame_simps]:
  "inner (snd (remove_slot E t s w)) = inner w" "next_id (snd (remove_slot E t s w)) = next_id w"
  by (simp_all add: remove_slot_def frame_simps split: route_target.split)

lemma remove_consumer_frame [frame_simps]:
  "inner (remove_consumer E g w) = inner w"
  by (simp add: remove_consumer_def frame_simps Let_def)

section \<open>Removing a slot\<close>

lemma mark_removed_sender [simp]:
  "slot_sender (slots (mark_removed E s w) s') = (if s' = s then None else slot_sender (slots w s'))"
  "slot_version (slots (mark_removed E s w) s') =
     (if s' = s then slot_version (slots w s) + 1 else slot_version (slots w s'))"
  by (simp_all add: mark_removed_def)

lemma group_shutdown_sender [simp]:
  "slot_sender (slots (group_shutdown E g w) s') =
     (if s' = grp_slot (groups w g) then None else slot_sender (slots w s'))"
  by (simp add: group_shutdown_def frame_simps Let_def)

lemma group_shutdown_version [simp]:
  "grp_version (groups (group_shutdown E g w) g) = grp_version (groups w g) + 1"
  by (simp add: group_shutdown_def frame_simps Let_def)

lemma u64_succ_neq [simp]: "(v :: u64) + 1 \<noteq> v"
  by simp

lemma remove_slot_fst: "fst (remove_slot E t s w) \<longleftrightarrow> target_slot w t = s"
  by (simp add: remove_slot_def target_slot_def split: route_target.split)

lemma remove_slot_miss: "target_slot w t \<noteq> s \<Longrightarrow> remove_slot E t s w = (False, w)"
  by (auto simp: remove_slot_def target_slot_def split: route_target.splits)

lemma remove_slot_sender:
  "target_slot w t = s \<Longrightarrow>
   slot_sender (slots (snd (remove_slot E t s w)) s') = (if s' = s then None else slot_sender (slots w s'))"
  by (auto simp: remove_slot_def target_slot_def split: route_target.splits)

lemma remove_slot_target_slot: "target_slot (snd (remove_slot E t s w)) u = target_slot w u"
  by (auto simp: remove_slot_def target_slot_def frame_simps split: route_target.splits)

lemma target_send_removed:
  "slot_sender (slots w (target_slot w t)) = None \<Longrightarrow> target_send E t m w = Ready (Inl ConnectionClosed)"
  by (auto simp: target_send_def target_slot_def slot_send_def split: route_target.splits)

text \<open>
  Removing the slot of a target takes effect at once: the target's version changes, so that
  every cached endpoint becomes stale, and any later send to the target reports a closed
  connection; a target with another slot is left untouched.
\<close>

theorem remove_slot_effect:
  "if target_slot w t = s
   then fst (remove_slot E t s w) \<and>
     target_version t (snd (remove_slot E t s w)) = target_version t w + 1 \<and>
     target_send E t m (snd (remove_slot E t s w)) = Ready (Inl ConnectionClosed)
   else remove_slot E t s w = (False, w)"
proof (cases "target_slot w t = s")
  case True
  have "target_version t (snd (remove_slot E t s w)) = target_version t w + 1"
    using True
    by (auto simp: remove_slot_def target_slot_def target_version_def group_version_def
        split: route_target.splits)
  moreover have "target_send E t m (snd (remove_slot E t s w)) = Ready (Inl ConnectionClosed)"
    using True remove_slot_sender remove_slot_target_slot by (metis target_send_removed)
  ultimately show ?thesis using True by (simp add: remove_slot_fst)
qed (simp add: remove_slot_miss)

end
