(* ===== verification/Registry.thy ===== *)
theory Registry
  imports Routing
begin

text \<open>
  \<^verbatim>\<open>src/broker_core/registry/mod.rs\<close>: the registry of local recipients. The conflict checks and
  the lookup are functions of a snapshot (\<open>registry_inner\<close>) over any radix tree; \<open>register\<close>,
  \<open>get_existing_or_register\<close> and \<open>unregister\<close> run under \<^verbatim>\<open>register_mutex\<close>, so each is one
  step on the state of the process, and readers see the snapshot before or after it.
\<close>

section \<open>Checks before a registration\<close>

datatype lookup_result = Duplicate route_target | Conflict bytes | NotFound

text \<open>
  The first loop of \<^verbatim>\<open>check_prefix_wildcard_conflicts\<close>: \<open>candidate\<close> grows segment by segment up
  to \<open>**\<close>, and every \<open>candidate:**\<close> is looked up.
\<close>

fun check_candidates ::
    "('t, 'v) radix_ops \<Rightarrow> 't \<Rightarrow> bytes \<Rightarrow> bytes list \<Rightarrow> bytes option" where
  "check_candidates R tree candidate [] = None"
| "check_candidates R tree candidate (segment # segments) =
     (if segment = starstar then None
      else let candidate' = (if candidate \<noteq> [] then candidate @ [COLON] else candidate) @ segment;
               check_bytes = candidate' @ COLON # starstar
           in if radix_get R tree check_bytes \<noteq> None then Some (from_utf8_lossy check_bytes)
              else check_candidates R tree candidate' segments)"

definition check_prefix_wildcard_conflicts ::
    "('t, 'v) radix_ops \<Rightarrow> 't \<Rightarrow> bytes \<Rightarrow> bytes option" where
  "check_prefix_wildcard_conflicts R tree pat =
     (if radix_is_empty R tree then None
      else case check_candidates R tree [] (split_on COLON pat) of
        Some c \<Rightarrow> Some c
      | None \<Rightarrow>
        (case find (\<lambda>(k, _). k \<noteq> pat \<and> compare_segments_bytes pat k True)
                (radix_walk_prefix R tree (static_prefix_bytes pat)) of
           Some (k, _) \<Rightarrow> Some (from_utf8_lossy k)
         | None \<Rightarrow> None))"

definition get_exact :: "('t, route_target) radix_ops \<Rightarrow> 't registry_inner \<Rightarrow> bytes \<Rightarrow> lookup_result" where
  "get_exact R inn addr = (case radix_get R (exact_tree inn) addr of
     Some target \<Rightarrow> Duplicate target
   | None \<Rightarrow> (case radix_walk_path R (prefix_wildcard_tree inn) addr of
       (k, _) # _ \<Rightarrow> Conflict (from_utf8_lossy k)
     | [] \<Rightarrow> (case find (\<lambda>(p, _). compare_segments_bytes p addr False) (single_wildcards inn) of
         Some (p, _) \<Rightarrow> Conflict (from_utf8_lossy p)
       | None \<Rightarrow> NotFound)))"

definition wildcard_duplicate ::
    "('t, route_target) radix_ops \<Rightarrow> 't registry_inner \<Rightarrow> bytes \<Rightarrow> route_target option" where
  "wildcard_duplicate R inn pat =
     (if ends_with pat starstar then radix_get R (prefix_wildcard_tree inn) pat
      else map_option snd (find (\<lambda>(p, _). p = pat) (single_wildcards inn)))"

definition get_wildcard :: "('t, route_target) radix_ops \<Rightarrow> 't registry_inner \<Rightarrow> bytes \<Rightarrow> lookup_result" where
  "get_wildcard R inn pat = (case wildcard_duplicate R inn pat of
     Some target \<Rightarrow> Duplicate target
   | None \<Rightarrow> (case check_prefix_wildcard_conflicts R (prefix_wildcard_tree inn) pat of
       Some existing \<Rightarrow> Conflict existing
     | None \<Rightarrow> (case find (\<lambda>(p, _). compare_segments_bytes p pat True) (single_wildcards inn) of
         Some (p, _) \<Rightarrow> Conflict (from_utf8_lossy p)
       | None \<Rightarrow> (case find (\<lambda>(k, _). compare_segments_bytes pat k False)
                          (radix_walk_prefix R (exact_tree inn) (static_prefix_bytes pat)) of
           Some (k, _) \<Rightarrow> Conflict (from_utf8_lossy k)
         | None \<Rightarrow> NotFound))))"

text \<open>The check that \<open>register\<close> and \<open>get_existing_or_register\<close> share, errors of validation first.\<close>

definition check_address_free ::
    "('t, route_target) radix_ops \<Rightarrow> 't registry_inner \<Rightarrow> bytes \<Rightarrow> registry_error + lookup_result" where
  "check_address_free R inn addr =
     (if is_wildcard addr then
        (case validate_wildcard_pattern addr of
           Inl e \<Rightarrow> Inl e
         | Inr _ \<Rightarrow> Inr (get_wildcard R inn addr))
      else Inr (get_exact R inn addr))"

text \<open>Copy-on-write insertion into the structure for this kind of address.\<close>

definition insert_route ::
    "('t, route_target) radix_ops \<Rightarrow> bytes \<Rightarrow> route_target \<Rightarrow> 't registry_inner \<Rightarrow> 't registry_inner" where
  "insert_route R addr target inn =
     (if \<not> is_wildcard addr
      then inn\<lparr>exact_tree := radix_insert R (exact_tree inn) addr target\<rparr>
      else if ends_with addr starstar
      then inn\<lparr>prefix_wildcard_tree := radix_insert R (prefix_wildcard_tree inn) addr target\<rparr>
      else inn\<lparr>single_wildcards := single_wildcards inn @ [(addr, target)]\<rparr>)"

section \<open>Operations of the registry\<close>

definition register ::
    "('t, 'c, 'd, 'o) deps \<Rightarrow> bytes \<Rightarrow> route_target \<Rightarrow> ('t, 'c, 'd, 'o) world \<Rightarrow>
     (registry_error + unit) \<times> ('t, 'c, 'd, 'o) world" where
  "register E addr target w = (case check_address_free (d_radix E) (inner w) addr of
     Inl e \<Rightarrow> (Inl e, w)
   | Inr (Duplicate _) \<Rightarrow> (Inl (AddressAlreadyOccupied addr), w)
   | Inr (Conflict wc) \<Rightarrow>
       (Inl (if is_wildcard addr then WildcardConflict addr wc else ConflictsWithWildcard addr wc), w)
   | Inr NotFound \<Rightarrow> (Inr (), w\<lparr>inner := insert_route (d_radix E) addr target (inner w)\<rparr>))"

datatype register_result = Registered route_target | AlreadyExists route_target

text \<open>
  The factory runs under the mutex, only when the address is free; it acts on the state of the
  process (allocating a channel, a slot, a group and a task), may fail, and may panic (\<open>None\<close>).
\<close>

definition get_existing_or_register ::
    "('t, 'c, 'd, 'o) deps \<Rightarrow> bytes \<Rightarrow>
     (('t, 'c, 'd, 'o) world \<Rightarrow> ((registry_error + route_target) \<times> ('t, 'c, 'd, 'o) world) option) \<Rightarrow>
     ('t, 'c, 'd, 'o) world \<Rightarrow>
     ((registry_error + register_result) \<times> ('t, 'c, 'd, 'o) world) option" where
  "get_existing_or_register E addr factory w = (case check_address_free (d_radix E) (inner w) addr of
     Inl e \<Rightarrow> Some (Inl e, w)
   | Inr (Duplicate target) \<Rightarrow> Some (Inr (AlreadyExists target), w)
   | Inr (Conflict existing) \<Rightarrow>
       Some (Inl (if is_wildcard addr then WildcardConflict addr existing
                  else ConflictsWithWildcard addr existing), w)
   | Inr NotFound \<Rightarrow> (case factory w of
       None \<Rightarrow> None
     | Some (Inl e, w') \<Rightarrow> Some (Inl e, w')
     | Some (Inr target, w') \<Rightarrow>
         Some (Inr (Registered target),
               w'\<lparr>inner := insert_route (d_radix E) addr target (inner w)\<rparr>)))"

text \<open>Removal of the first entry with a key, as \<^verbatim>\<open>position\<close> and \<^verbatim>\<open>Vec::remove\<close> do.\<close>

fun remove_first :: "bytes \<Rightarrow> (bytes \<times> 'v) list \<Rightarrow> (bytes \<times> 'v) list" where
  "remove_first k [] = []"
| "remove_first k ((p, v) # xs) = (if p = k then xs else (p, v) # remove_first k xs)"

text \<open>Where a key is stored, and the snapshot without it.\<close>

definition find_route ::
    "('t, route_target) radix_ops \<Rightarrow> bytes \<Rightarrow> 't registry_inner \<Rightarrow> route_target option" where
  "find_route R addr inn =
     (if is_wildcard addr then
        (if ends_with addr starstar then radix_get R (prefix_wildcard_tree inn) addr
         else map_option snd (find (\<lambda>(p, _). p = addr) (single_wildcards inn)))
      else radix_get R (exact_tree inn) addr)"

definition delete_route ::
    "('t, route_target) radix_ops \<Rightarrow> bytes \<Rightarrow> 't registry_inner \<Rightarrow> 't registry_inner" where
  "delete_route R addr inn =
     (if is_wildcard addr then
        (if ends_with addr starstar
         then inn\<lparr>prefix_wildcard_tree := radix_remove R (prefix_wildcard_tree inn) addr\<rparr>
         else inn\<lparr>single_wildcards := remove_first addr (single_wildcards inn)\<rparr>)
      else inn\<lparr>exact_tree := radix_remove R (exact_tree inn) addr\<rparr>)"

definition unregister ::
    "('t, 'c, 'd, 'o) deps \<Rightarrow> bytes \<Rightarrow> nat \<Rightarrow> ('t, 'c, 'd, 'o) world \<Rightarrow>
     (registry_error + unit) \<times> ('t, 'c, 'd, 'o) world" where
  "unregister E addr s w = (case find_route (d_radix E) addr (inner w) of
     None \<Rightarrow> (Inr (), w)
   | Some target \<Rightarrow>
       (let (removed, w') = remove_slot E target s w in
        if removed
        then (Inr (), w'\<lparr>inner := delete_route (d_radix E) addr (inner w)\<rparr>)
        else (Inr (), w')))"

definition lookup_route ::
    "('t, route_target) radix_ops \<Rightarrow> 't registry_inner \<Rightarrow> bytes \<Rightarrow> route_target option" where
  "lookup_route R inn addr = (case radix_get R (exact_tree inn) addr of
     Some t \<Rightarrow> Some t
   | None \<Rightarrow> (case radix_get_ancestor R (prefix_wildcard_tree inn) addr of
       Some t \<Rightarrow> Some t
     | None \<Rightarrow> (case find (\<lambda>(p, _). compare_segments_bytes p addr False) (single_wildcards inn) of
         Some (_, t) \<Rightarrow> Some t
       | None \<Rightarrow> None)))"

definition lookup ::
    "('t, 'c, 'd, 'o) deps \<Rightarrow> bytes \<Rightarrow> ('t, 'c, 'd, 'o) world \<Rightarrow> route_target option" where
  "lookup E addr w = lookup_route (d_radix E) (inner w) addr"

definition has_local :: "('t, 'c, 'd, 'o) deps \<Rightarrow> bytes \<Rightarrow> ('t, 'c, 'd, 'o) world \<Rightarrow> bool" where
  "has_local E addr w \<longleftrightarrow> radix_get (d_radix E) (exact_tree (inner w)) addr \<noteq> None"

definition has_route :: "('t, 'c, 'd, 'o) deps \<Rightarrow> bytes \<Rightarrow> ('t, 'c, 'd, 'o) world \<Rightarrow> bool" where
  "has_route E addr w \<longleftrightarrow> lookup E addr w \<noteq> None"

section \<open>Keys of the registry\<close>

lemma find_key: "map_option snd (find (\<lambda>(p, _). p = k) xs) = map_of xs k"
  by (induction xs) auto

lemma find_route_eq:
  "find_route R k inn =
     (if is_wildcard k then
        (if ends_with k starstar then radix_get R (prefix_wildcard_tree inn) k
         else map_of (single_wildcards inn) k)
      else radix_get R (exact_tree inn) k)"
  by (simp add: find_route_def find_key)

lemma map_of_remove_first:
  "distinct (map fst xs) \<Longrightarrow> map_of (remove_first k xs) = (map_of xs)(k := None)"
proof (induction xs)
  case (Cons e xs)
  then show ?case by (cases e) (auto simp: fun_eq_iff map_of_eq_None_iff image_iff)
qed simp

lemma set_remove_first: "set (remove_first k xs) \<subseteq> set xs"
  by (induction k xs rule: remove_first.induct) auto

lemma distinct_remove_first: "distinct (map fst xs) \<Longrightarrow> distinct (map fst (remove_first k xs))"
proof (induction k xs rule: remove_first.induct)
  case (2 k p v xs)
  then show ?case using set_remove_first [of k xs] by auto
qed simp

text \<open>
  The invariant of a snapshot: exact keys contain no wildcard, the keys of the prefix tree are
  valid patterns that end in \<open>**\<close>, single wildcards are valid patterns that do not and occur once;
  no two single wildcards overlap, and none matches an exact key.
\<close>

definition registry_ok :: "('t, route_target) radix_ops \<Rightarrow> 't registry_inner \<Rightarrow> bool" where
  "registry_ok R inn \<longleftrightarrow>
     (\<forall>k. radix_get R (exact_tree inn) k \<noteq> None \<longrightarrow> concrete k \<and> is_utf8 k) \<and>
     (\<forall>k. radix_get R (prefix_wildcard_tree inn) k \<noteq> None \<longrightarrow>
        pattern_spec k \<and> ends_with k starstar \<and> is_utf8 k) \<and>
     (\<forall>p\<in>set (map fst (single_wildcards inn)).
        pattern_spec p \<and> is_wildcard p \<and> \<not> ends_with p starstar \<and> is_utf8 p) \<and>
     distinct (map fst (single_wildcards inn)) \<and>
     (\<forall>p\<in>set (map fst (single_wildcards inn)). \<forall>q\<in>set (map fst (single_wildcards inn)).
        p \<noteq> q \<longrightarrow> \<not> compare_segments_bytes p q True) \<and>
     (\<forall>p\<in>set (map fst (single_wildcards inn)). \<forall>k.
        radix_get R (exact_tree inn) k \<noteq> None \<longrightarrow> \<not> compare_segments_bytes p k False)"

lemma ends_with_is_wildcard: "ends_with k starstar \<Longrightarrow> is_wildcard k"
  by (auto simp: ends_with_iff is_wildcard_def)

lemma find_None_key: "find P xs = None \<Longrightarrow> x \<in> set xs \<Longrightarrow> \<not> P x"
  by (auto simp: find_None_iff)

locale route_radix = radix R for R :: "('t, route_target) radix_ops"
begin

lemma registry_ok_new: "registry_ok R (registry_new R)"
  by (simp add: registry_ok_def registry_new_def get_new)

text \<open>No key of the prefix tree is a prefix of a concrete address: it contains a star.\<close>

lemma prefix_keys_not_prefix:
  assumes "registry_ok R inn" and "concrete a" and "prefix k a"
  shows "radix_get R (prefix_wildcard_tree inn) k = None"
proof (rule ccontr)
  assume "radix_get R (prefix_wildcard_tree inn) k \<noteq> None"
  then have "is_wildcard k"
    using assms(1) ends_with_is_wildcard by (auto simp: registry_ok_def)
  then show False
    using assms(2,3) set_mono_prefix by (auto simp: is_wildcard_def concrete_def)
qed

lemma walk_path_concrete:
  assumes "registry_ok R inn" and "concrete a"
  shows "radix_walk_path R (prefix_wildcard_tree inn) a = []"
  using prefix_keys_not_prefix [OF assms] by (intro walk_path_Nil) blast

lemma ancestor_concrete:
  assumes "registry_ok R inn" and "concrete a"
  shows "radix_get_ancestor R (prefix_wildcard_tree inn) a = None"
  using prefix_keys_not_prefix [OF assms] by (intro get_ancestor_None) blast

lemma get_exact_NotFound:
  assumes "registry_ok R inn" and "concrete a"
  shows "get_exact R inn a = NotFound \<longleftrightarrow>
    radix_get R (exact_tree inn) a = None \<and>
    (\<forall>p\<in>set (map fst (single_wildcards inn)). \<not> compare_segments_bytes p a False)"
  using walk_path_concrete [OF assms]
  by (auto simp: get_exact_def find_None_iff dest!: find_Some_set split: option.splits) force+

lemma get_wildcard_NotFound:
  assumes "get_wildcard R inn p = NotFound"
  shows "wildcard_duplicate R inn p = None"
    and "check_prefix_wildcard_conflicts R (prefix_wildcard_tree inn) p = None"
    and "\<forall>q\<in>set (map fst (single_wildcards inn)). \<not> compare_segments_bytes q p True"
    and "\<And>k. radix_get R (exact_tree inn) k \<noteq> None \<Longrightarrow> prefix (static_prefix_bytes p) k \<Longrightarrow>
      \<not> compare_segments_bytes p k False"
proof -
  from assms have 1: "wildcard_duplicate R inn p = None"
    and 2: "check_prefix_wildcard_conflicts R (prefix_wildcard_tree inn) p = None"
    and 3: "find (\<lambda>(q, _). compare_segments_bytes q p True) (single_wildcards inn) = None"
    and 4: "find (\<lambda>(k, _). compare_segments_bytes p k False)
              (radix_walk_prefix R (exact_tree inn) (static_prefix_bytes p)) = None"
    by (auto simp: get_wildcard_def split: option.splits)
  show "wildcard_duplicate R inn p = None" by (rule 1)
  show "check_prefix_wildcard_conflicts R (prefix_wildcard_tree inn) p = None" by (rule 2)
  show "\<forall>q\<in>set (map fst (single_wildcards inn)). \<not> compare_segments_bytes q p True"
    using 3 by (auto simp: find_None_iff)
  fix k
  assume "radix_get R (exact_tree inn) k \<noteq> None" and "prefix (static_prefix_bytes p) k"
  then obtain v where "(k, v) \<in> set (radix_walk_prefix R (exact_tree inn) (static_prefix_bytes p))"
    using walk_prefix [of "exact_tree inn" "static_prefix_bytes p"] by auto
  with 4 show "\<not> compare_segments_bytes p k False"
    by (auto simp: find_None_iff)
qed

lemma single_matches_prefix:
  assumes "pattern_spec p" and "is_wildcard p" and "\<not> ends_with p starstar" and "concrete k"
    and "compare_segments_bytes p k False"
  shows "prefix (static_prefix_bytes p) k"
proof -
  have "pattern_matches p k" using assms compare_concrete by blast
  then have "prefix (static_prefix_bytes p) k \<or> p = k @ COLON # starstar"
    using static_prefix_matches [OF assms(1,2)] by blast
  moreover have "p \<noteq> k @ COLON # starstar"
    using assms(3) by (metis append_Cons append_Nil append_assoc ends_with_iff)
  ultimately show ?thesis by blast
qed

lemma insert_exact_ok:
  assumes ok: "registry_ok R inn" and "\<not> is_wildcard a" and "is_utf8 a" and "get_exact R inn a = NotFound"
  shows "registry_ok R (insert_route R a t inn)"
proof -
  have c: "concrete a" using assms(2) by (simp add: is_wildcard_def concrete_def)
  then have "\<forall>p\<in>set (map fst (single_wildcards inn)). \<not> compare_segments_bytes p a False"
    using get_exact_NotFound [OF ok] assms(4) by blast
  with ok assms(2,3) c show ?thesis
    by (simp add: registry_ok_def insert_route_def get_insert)
qed

lemma insert_prefix_ok:
  assumes "registry_ok R inn" and "is_wildcard a" and "is_utf8 a" and "ends_with a starstar" and "pattern_spec a"
  shows "registry_ok R (insert_route R a t inn)"
  using assms by (simp add: registry_ok_def insert_route_def get_insert)

lemma insert_single_ok:
  assumes ok: "registry_ok R inn" and w: "is_wildcard a" and u: "is_utf8 a"
    and e: "\<not> ends_with a starstar" and p: "pattern_spec a" and nf: "get_wildcard R inn a = NotFound"
  shows "registry_ok R (insert_route R a t inn)"
proof -
  let ?ks = "map fst (single_wildcards inn)"
  have new: "a \<notin> set ?ks"
    using get_wildcard_NotFound(1) [OF nf] e by (auto simp: wildcard_duplicate_def find_key map_of_eq_None_iff)
  have over: "\<not> compare_segments_bytes q a True \<and> \<not> compare_segments_bytes a q True"
    if "q \<in> set ?ks" for q
    using get_wildcard_NotFound(3) [OF nf] that compare_loop_both_sym
    by (auto simp: compare_segments_bytes_def)
  have ex: "\<not> compare_segments_bytes a k False" if "radix_get R (exact_tree inn) k \<noteq> None" for k
  proof
    assume c: "compare_segments_bytes a k False"
    have "concrete k" using ok that by (auto simp: registry_ok_def)
    then have "prefix (static_prefix_bytes a) k" using single_matches_prefix p w e c by blast
    with get_wildcard_NotFound(4) [OF nf that] c show False by blast
  qed
  show ?thesis
    using ok new over ex w u e p
    by (simp add: registry_ok_def insert_route_def ball_Un)
qed

lemma insert_route_ok:
  assumes "registry_ok R inn" and "is_utf8 a" and "check_address_free R inn a = Inr NotFound"
  shows "registry_ok R (insert_route R a t inn)"
proof (cases "is_wildcard a")
  case False
  with assms show ?thesis by (auto simp: check_address_free_def intro: insert_exact_ok)
next
  case True
  with assms(3) have "pattern_spec a" "get_wildcard R inn a = NotFound"
    by (auto simp: check_address_free_def validate_wildcard_pattern_Inr [symmetric] split: sum.splits)
  with True assms show ?thesis
    by (cases "ends_with a starstar") (auto intro: insert_prefix_ok insert_single_ok)
qed

lemma delete_route_ok:
  assumes "registry_ok R inn"
  shows "registry_ok R (delete_route R a inn)"
proof -
  have "set (map fst (remove_first a (single_wildcards inn))) \<subseteq> set (map fst (single_wildcards inn))"
    using set_remove_first [of a "single_wildcards inn"] by auto
  moreover have "distinct (map fst (remove_first a (single_wildcards inn)))"
    using assms by (intro distinct_remove_first) (simp add: registry_ok_def)
  ultimately show ?thesis
    using assms by (simp add: registry_ok_def delete_route_def get_remove del: set_map) blast
qed

text \<open>The routes that apply to a concrete address, apart from those ending in \<open>**\<close>.\<close>

lemma single_unique:
  assumes "registry_ok R inn" and "concrete a"
    and "(p, t) \<in> set (single_wildcards inn)" and "pattern_matches p a"
    and "(q, u) \<in> set (single_wildcards inn)" and "pattern_matches q a"
  shows "p = q \<and> t = u"
proof -
  have ps: "p \<in> set (map fst (single_wildcards inn))" "q \<in> set (map fst (single_wildcards inn))"
    using assms(3,5) by force+
  then have "pattern_spec p" "pattern_spec q" using assms(1) by (auto simp: registry_ok_def)
  then have "compare_segments_bytes p q True" using compare_both_iff assms(2,4,6) by blast
  with assms(1) ps have "p = q" unfolding registry_ok_def by blast
  moreover have "distinct (map fst (single_wildcards inn))" using assms(1) by (simp add: registry_ok_def)
  ultimately show ?thesis using assms(3,5) distinct_map_fst_eq by metis
qed

lemma single_not_exact:
  assumes "registry_ok R inn" and "concrete a"
    and "(p, t) \<in> set (single_wildcards inn)" and "pattern_matches p a"
  shows "radix_get R (exact_tree inn) a = None"
proof -
  have p: "p \<in> set (map fst (single_wildcards inn))" using assms(3) by force
  then have "pattern_spec p" using assms(1) by (auto simp: registry_ok_def)
  then have "compare_segments_bytes p a False" using compare_concrete assms(2,4) by blast
  with assms(1) p show ?thesis unfolding registry_ok_def by blast
qed

lemma find_single:
  assumes "registry_ok R inn" and "concrete a"
  shows "map_option snd (find (\<lambda>(p, _). compare_segments_bytes p a False) (single_wildcards inn)) = Some t
    \<longleftrightarrow> (\<exists>p. (p, t) \<in> set (single_wildcards inn) \<and> pattern_matches p a)" (is "?F = _ \<longleftrightarrow> ?S")
proof -
  have c: "compare_segments_bytes p a False \<longleftrightarrow> pattern_matches p a"
    if "(p, u) \<in> set (single_wildcards inn)" for p u
  proof -
    have "p \<in> set (map fst (single_wildcards inn))" using that by force
    then have "pattern_spec p" using assms(1) by (auto simp: registry_ok_def)
    then show ?thesis using compare_concrete assms(2) by blast
  qed
  show ?thesis
  proof
    assume "?F = Some t"
    then show ?S using c by (auto dest!: find_Some_set)
  next
    assume ?S
    then obtain p where p: "(p, t) \<in> set (single_wildcards inn)" "pattern_matches p a" by blast
    then obtain q u where q: "find (\<lambda>(p, _). compare_segments_bytes p a False) (single_wildcards inn) = Some (q, u)"
      using c find_None_key [of "\<lambda>(p, _). compare_segments_bytes p a False" "single_wildcards inn" "(p, t)"]
      by (cases "find (\<lambda>(p, _). compare_segments_bytes p a False) (single_wildcards inn)") auto
    then have "(q, u) \<in> set (single_wildcards inn)" "pattern_matches q a"
      using c by (auto dest!: find_Some_set)
    then have "u = t" using single_unique [OF assms p] by blast
    with q show "?F = Some t" by simp
  qed
qed

lemma lookup_route_iff:
  assumes "registry_ok R inn" and "concrete a"
  shows "lookup_route R inn a = Some t \<longleftrightarrow>
    radix_get R (exact_tree inn) a = Some t \<or>
    (\<exists>p. (p, t) \<in> set (single_wildcards inn) \<and> pattern_matches p a)"
proof -
  have "lookup_route R inn a = (case radix_get R (exact_tree inn) a of
      Some u \<Rightarrow> Some u
    | None \<Rightarrow> map_option snd (find (\<lambda>(p, _). compare_segments_bytes p a False) (single_wildcards inn)))"
    using ancestor_concrete [OF assms] by (simp add: lookup_route_def split: option.splits)
  then show ?thesis
    using find_single [OF assms, of t] single_not_exact [OF assms]
    by (cases "radix_get R (exact_tree inn) a") auto
qed

text \<open>A snapshot implements a finite map from keys to targets.\<close>

lemma find_route_insert:
  assumes "registry_ok R inn" and "check_address_free R inn a = Inr NotFound"
  shows "find_route R k (insert_route R a t inn) = (if k = a then Some t else find_route R k inn)"
proof -
  have "map_of (single_wildcards inn) a = None" if "is_wildcard a" "\<not> ends_with a starstar"
  proof -
    have "get_wildcard R inn a = NotFound"
      using assms(2) that by (auto simp: check_address_free_def split: sum.splits)
    then show ?thesis
      using get_wildcard_NotFound(1) [of inn a] that by (simp add: wildcard_duplicate_def find_key)
  qed
  then show ?thesis
    by (auto simp: find_route_eq insert_route_def get_insert map_add_def split: option.splits)
qed

lemma find_route_delete:
  assumes "registry_ok R inn"
  shows "find_route R k (delete_route R a inn) = (if k = a then None else find_route R k inn)"
  using assms map_of_remove_first [of "single_wildcards inn" a]
  by (simp add: find_route_eq delete_route_def get_remove registry_ok_def)

lemma check_free_find_route:
  assumes "check_address_free R inn a = Inr NotFound"
  shows "find_route R a inn = None"
  using assms
  by (auto simp: check_address_free_def find_route_eq get_exact_def get_wildcard_def
      wildcard_duplicate_def find_key split: option.splits sum.splits if_splits)

end

interpretation route_alist: route_radix alist_radix
  by unfold_locales

section \<open>Reachable registries\<close>

text \<open>
  The steps of a process as the registry sees them: its three mutators, in any order and on any
  arguments of the Rust types, and everything else the process does, which leaves the snapshot as
  it is. A factory passed to \<open>get_existing_or_register\<close> allocates but does not touch the registry.
\<close>

definition factory_frame ::
    "(('t, 'c, 'd, 'o) world \<Rightarrow> ((registry_error + route_target) \<times> ('t, 'c, 'd, 'o) world) option) \<Rightarrow> bool" where
  "factory_frame f \<longleftrightarrow> (\<forall>v q v'. f v = Some (q, v') \<longrightarrow> inner v' = inner v)"

inductive registry_step ::
    "('t, 'c, 'd, 'o) deps \<Rightarrow> ('t, 'c, 'd, 'o) world \<Rightarrow> ('t, 'c, 'd, 'o) world \<Rightarrow> bool" for E where
  step_register: "is_utf8 a \<Longrightarrow> register E a t w = (r, w') \<Longrightarrow> registry_step E w w'"
| step_get_or_register: "is_utf8 a \<Longrightarrow> factory_frame factory \<Longrightarrow>
    get_existing_or_register E a factory w = Some (r, w') \<Longrightarrow> registry_step E w w'"
| step_unregister: "unregister E a s w = (r, w') \<Longrightarrow> registry_step E w w'"
| step_other: "inner w' = inner w \<Longrightarrow> registry_step E w w'"

inductive registry_reachable :: "('t, 'c, 'd, 'o) deps \<Rightarrow> ('t, 'c, 'd, 'o) world \<Rightarrow> bool" for E where
  reach_new: "inner w = registry_new (d_radix E) \<Longrightarrow> registry_reachable E w"
| reach_step: "registry_reachable E w \<Longrightarrow> registry_step E w w' \<Longrightarrow> registry_reachable E w'"

lemma register_inner:
  "inner (snd (register E a t w)) =
     (if check_address_free (d_radix E) (inner w) a = Inr NotFound
      then insert_route (d_radix E) a t (inner w) else inner w)"
  by (simp add: register_def split: sum.split lookup_result.split)

lemma register_ok_iff:
  "fst (register E a t w) = Inr () \<longleftrightarrow> check_address_free (d_radix E) (inner w) a = Inr NotFound"
  by (simp add: register_def split: sum.split lookup_result.split)

lemma unregister_inner:
  "inner (snd (unregister E a s w)) =
     (case find_route (d_radix E) a (inner w) of
        None \<Rightarrow> inner w
      | Some t \<Rightarrow> if target_slot w t = s then delete_route (d_radix E) a (inner w) else inner w)"
  using remove_slot_frame(1) [of E _ s w] remove_slot_fst [of E _ s w]
  by (auto simp: unregister_def split_beta Let_def split: option.split)

lemma unregister_hit:
  assumes "find_route (d_radix E) a (inner w) = Some t" and "target_slot w t = s"
  shows "unregister E a s w =
    (Inr (), (snd (remove_slot E t s w))\<lparr>inner := delete_route (d_radix E) a (inner w)\<rparr>)"
  using assms remove_slot_fst [of E t s w] by (simp add: unregister_def split_beta Let_def)

lemma unregister_hit_closes:
  assumes "find_route (d_radix E) a (inner w) = Some t" and "target_slot w t = s"
  shows "slot_sender (slots (snd (unregister E a s w)) s) = None"
    and "target_slot (snd (unregister E a s w)) u = target_slot w u"
  using unregister_hit [OF assms] remove_slot_sender [OF assms(2), of E] remove_slot_target_slot [of E t s w u]
  by (auto simp: target_slot_def split: route_target.splits)

lemma get_or_register_inner:
  assumes "factory_frame factory"
    and "get_existing_or_register E a factory w = Some (r, w')"
  shows "inner w' = inner w \<or>
    (check_address_free (d_radix E) (inner w) a = Inr NotFound \<and>
     (\<exists>t. r = Inr (Registered t) \<and> inner w' = insert_route (d_radix E) a t (inner w)))"
  using assms
  by (fastforce simp: factory_frame_def get_existing_or_register_def split: sum.splits lookup_result.splits option.splits)

lemma registry_step_ok:
  assumes rad: "route_radix (d_radix E)" and "registry_step E w w'" and "registry_ok (d_radix E) (inner w)"
  shows "registry_ok (d_radix E) (inner w')"
  using assms(2,3)
proof (induction rule: registry_step.induct)
  case (step_register a t w r w')
  then show ?case
    using route_radix.insert_route_ok [OF rad, of "inner w" a t] register_inner [of E a t w]
    by (simp split: if_splits)
next
  case (step_get_or_register a factory w r w')
  then show ?case
    using get_or_register_inner [OF step_get_or_register(2,3)] route_radix.insert_route_ok [OF rad]
    by auto
next
  case (step_unregister a s w r w')
  then show ?case
    using route_radix.delete_route_ok [OF rad, of "inner w" a] unregister_inner [of E a s w]
    by (simp split: option.splits if_splits)
qed simp

lemma registry_reachable_ok:
  assumes "route_radix (d_radix E)" and "registry_reachable E w"
  shows "registry_ok (d_radix E) (inner w)"
  using assms(2)
proof (induction rule: registry_reachable.induct)
  case (reach_new w)
  then show ?case using route_radix.registry_ok_new [OF assms(1)] by simp
next
  case (reach_step w w')
  then show ?case using registry_step_ok [OF assms(1)] by blast
qed

end
