(* ===== verification/Registry_Spec.thy ===== *)
theory Registry_Spec
  imports Registry
begin

text \<open>
  What the registry promises, over the finite map \<open>routes\<close> from registered addresses and patterns
  to targets that a snapshot implements: the invariant of every reachable registry, the result of
  a lookup, the effect of each mutator on the map and on later lookups, and the meaning of the
  errors. Patterns that end in \<open>**\<close> are stored but take part in no lookup of a concrete address;
  the last sections say so precisely and show which conflicts the checks do not see.
\<close>

section \<open>The abstract registry\<close>

definition routes ::
    "('t, 'c, 'd, 'o) deps \<Rightarrow> ('t, 'c, 'd, 'o) world \<Rightarrow> bytes \<rightharpoonup> route_target" where
  "routes E w k = find_route (d_radix E) k (inner w)"

text \<open>The concrete addresses a registered key receives: its own, or those its \<open>*\<close> pattern matches.\<close>

definition covers :: "bytes \<Rightarrow> bytes \<Rightarrow> bool" where
  "covers k a \<longleftrightarrow>
     (if is_wildcard k then \<not> ends_with k starstar \<and> pattern_matches k a else k = a)"

definition overlap :: "bytes \<Rightarrow> bytes \<Rightarrow> bool" where
  "overlap p q \<longleftrightarrow> (\<exists>a. concrete a \<and> pattern_matches p a \<and> pattern_matches q a)"

lemma concrete_wildcard: "concrete a \<longleftrightarrow> \<not> is_wildcard a"
  by (simp add: concrete_def is_wildcard_def)

context route_radix
begin

lemma find_route_covers:
  assumes ok: "registry_ok R inn" and c: "concrete a"
  shows "(\<exists>k. find_route R k inn = Some t \<and> covers k a) \<longleftrightarrow>
    radix_get R (exact_tree inn) a = Some t \<or>
    (\<exists>p. (p, t) \<in> set (single_wildcards inn) \<and> pattern_matches p a)" (is "?L \<longleftrightarrow> ?R")
proof
  assume ?L
  then show ?R
    by (auto simp: covers_def find_route_eq dest: map_of_SomeD split: if_splits)
next
  assume ?R
  then show ?L
  proof (elim disjE exE conjE)
    fix p assume p: "(p, t) \<in> set (single_wildcards inn)" "pattern_matches p a"
    then have "p \<in> set (map fst (single_wildcards inn))" by force
    then have "is_wildcard p \<and> \<not> ends_with p starstar" using ok by (auto simp: registry_ok_def)
    moreover have "map_of (single_wildcards inn) p = Some t"
      using ok p(1) by (intro map_of_is_SomeI) (auto simp: registry_ok_def)
    ultimately show ?L using p(2) by (auto simp: find_route_eq covers_def)
  qed (use c in \<open>auto simp: covers_def find_route_eq concrete_wildcard\<close>)
qed

lemma lookup_covers:
  assumes "registry_ok R inn" and "concrete a"
  shows "lookup_route R inn a = Some t \<longleftrightarrow> (\<exists>k. find_route R k inn = Some t \<and> covers k a)"
  using lookup_route_iff [OF assms] find_route_covers [OF assms] by simp

lemma covers_unique:
  assumes ok: "registry_ok R inn" and c: "concrete a"
    and k: "find_route R k inn \<noteq> None" "covers k a" and l: "find_route R l inn \<noteq> None" "covers l a"
  shows "k = l"
proof -
  have single: "\<exists>t. (j, t) \<in> set (single_wildcards inn) \<and> pattern_matches j a"
    if "find_route R j inn \<noteq> None" "covers j a" "is_wildcard j" for j
    using that by (auto simp: find_route_eq covers_def dest: map_of_SomeD split: if_splits)
  have exact: "j = a \<and> radix_get R (exact_tree inn) a \<noteq> None"
    if "find_route R j inn \<noteq> None" "covers j a" "\<not> is_wildcard j" for j
    using that by (auto simp: find_route_eq covers_def)
  show ?thesis
    using single [OF k] single [OF l] exact [OF k] exact [OF l]
      single_unique [OF ok c] single_not_exact [OF ok c] by (metis option.distinct(1))
qed

lemma lookup_route_insert:
  assumes ok: "registry_ok R inn" and c: "concrete b" and u: "is_utf8 a"
    and free: "check_address_free R inn a = Inr NotFound"
  shows "lookup_route R (insert_route R a t inn) b =
    (if covers a b then Some t else lookup_route R inn b)"
proof -
  have ok': "registry_ok R (insert_route R a t inn)" using insert_route_ok ok u free by blast
  have f: "find_route R k (insert_route R a t inn) = (if k = a then Some t else find_route R k inn)" for k
    using find_route_insert ok free by blast
  have none: "find_route R a inn = None" using check_free_find_route free by blast
  show ?thesis
  proof (cases "covers a b")
    case True
    then show ?thesis using lookup_covers [OF ok' c, of t] f by auto
  next
    case False
    have "lookup_route R (insert_route R a t inn) b = Some v \<longleftrightarrow> lookup_route R inn b = Some v" for v
      using lookup_covers [OF ok' c, of v] lookup_covers [OF ok c, of v] f False none by (metis option.distinct(1))
    with False show ?thesis by (metis not_None_eq)
  qed
qed

lemma lookup_route_delete:
  assumes ok: "registry_ok R inn" and c: "concrete b" and k: "find_route R a inn \<noteq> None"
  shows "lookup_route R (delete_route R a inn) b =
    (if covers a b then None else lookup_route R inn b)"
proof -
  have ok': "registry_ok R (delete_route R a inn)" using delete_route_ok ok by blast
  have f: "find_route R j (delete_route R a inn) = (if j = a then None else find_route R j inn)" for j
    using find_route_delete ok by blast
  show ?thesis
  proof (cases "covers a b")
    case True
    have "lookup_route R (delete_route R a inn) b \<noteq> Some v" for v
      using lookup_covers [OF ok' c, of v] f covers_unique [OF ok c _ _ k True]
      by (metis option.distinct(1))
    with True show ?thesis by (metis not_None_eq)
  next
    case False
    have "lookup_route R (delete_route R a inn) b = Some v \<longleftrightarrow> lookup_route R inn b = Some v" for v
      using lookup_covers [OF ok' c, of v] lookup_covers [OF ok c, of v] f False
      by (metis option.distinct(1))
    with False show ?thesis by (metis not_None_eq)
  qed
qed

text \<open>A concrete address is free exactly when no message to it would be routed.\<close>

lemma check_free_concrete:
  assumes ok: "registry_ok R inn" and c: "concrete a"
  shows "check_address_free R inn a = Inr NotFound \<longleftrightarrow> lookup_route R inn a = None"
proof -
  have "(\<forall>p\<in>set (map fst (single_wildcards inn)). \<not> compare_segments_bytes p a False) \<longleftrightarrow>
      (\<forall>t p. (p, t) \<in> set (single_wildcards inn) \<longrightarrow> \<not> pattern_matches p a)"
    using ok compare_concrete c by (fastforce simp: registry_ok_def)
  then show ?thesis
    using lookup_route_iff [OF ok c] get_exact_NotFound [OF ok c] c
    by (cases "lookup_route R inn a") (auto simp: check_address_free_def concrete_wildcard)
qed

lemma found_key_ok:
  assumes "registry_ok R inn" and "find_route R a inn = Some t"
  shows "is_utf8 a \<and> (is_wildcard a \<longrightarrow> pattern_spec a)"
  using assms
  by (force simp: find_route_eq registry_ok_def dest: map_of_SomeD split: if_splits)

lemma duplicate_find_route:
  "check_address_free R inn a = Inr (Duplicate t) \<longleftrightarrow>
   find_route R a inn = Some t \<and> (is_wildcard a \<longrightarrow> pattern_spec a)"
  by (auto simp: check_address_free_def find_route_eq get_exact_def get_wildcard_def
      wildcard_duplicate_def find_key validate_wildcard_pattern_Inr [symmetric]
      split: option.splits sum.splits list.splits if_splits)

text \<open>Every conflict that a check reports is with a registered key that really overlaps.\<close>

lemma check_candidates_Some:
  assumes "check_candidates T tree (join_with COLON pre) segs = Some c"
    and "\<forall>s\<in>set pre \<union> set segs. s \<noteq> []"
  shows "\<exists>xs ys. segs = xs @ ys \<and> xs \<noteq> [] \<and> starstar \<notin> set xs \<and>
    radix_get T tree (join_with COLON (pre @ xs @ [starstar])) \<noteq> None \<and>
    c = from_utf8_lossy (join_with COLON (pre @ xs @ [starstar]))"
  using assms
proof (induction segs arbitrary: pre)
  case (Cons s segs)
  have ns: "s \<noteq> starstar" using Cons.prems(1) by (auto split: if_splits)
  have j: "(if join_with COLON pre \<noteq> [] then join_with COLON pre @ [COLON] else join_with COLON pre) @ s =
      join_with COLON (pre @ [s])"
    using prefix_join_with [of pre "[s]" COLON] Cons.prems(2)
    by (cases pre; cases "tl pre") auto
  have k: "join_with COLON (pre @ [s]) @ COLON # starstar = join_with COLON (pre @ [s] @ [starstar])"
    using prefix_join_with [of "pre @ [s]" "[starstar]" COLON] by simp
  show ?case
  proof (cases "radix_get T tree (join_with COLON (pre @ [s] @ [starstar])) = None")
    case True
    then have "check_candidates T tree (join_with COLON (pre @ [s])) segs = Some c"
      using Cons.prems(1) ns j k by (simp add: Let_def)
    then obtain xs ys where "segs = xs @ ys" "xs \<noteq> []" "starstar \<notin> set xs"
        "radix_get T tree (join_with COLON ((pre @ [s]) @ xs @ [starstar])) \<noteq> None"
        "c = from_utf8_lossy (join_with COLON ((pre @ [s]) @ xs @ [starstar]))"
      using Cons.IH [of "pre @ [s]"] Cons.prems(2) by auto
    with ns show ?thesis by (intro exI [of _ "s # xs"] exI [of _ ys]) auto
  next
    case False
    then have "c = from_utf8_lossy (join_with COLON (pre @ [s] @ [starstar]))"
      using Cons.prems(1) ns j k by (simp add: Let_def split: if_splits)
    with False ns show ?thesis by (intro exI [of _ "[s]"] exI [of _ segs]) auto
  qed
qed simp

lemma compare_loop_ancestor:
  "starstar \<notin> set xs \<Longrightarrow> compare_loop (xs @ ys) (xs @ [starstar]) True"
proof (induction xs)
  case Nil
  show ?case by (cases ys) auto
qed auto

lemma prefix_conflict_real:
  assumes ok: "registry_ok R inn" and p: "pattern_spec a"
    and c: "check_prefix_wildcard_conflicts R (prefix_wildcard_tree inn) a = Some k"
  shows "find_route R k inn \<noteq> None \<and> is_wildcard k \<and> overlap a k"
proof -
  let ?T = "prefix_wildcard_tree inn"
  have key: "find_route R j inn \<noteq> None \<and> is_wildcard j \<and> overlap a j \<and> from_utf8_lossy j = j"
    if j: "radix_get R ?T j \<noteq> None" and o: "compare_segments_bytes a j True" for j
  proof -
    have "pattern_spec j" "ends_with j starstar" "is_utf8 j" using ok j by (auto simp: registry_ok_def)
    with j o p show ?thesis
      by (auto simp: find_route_eq overlap_def compare_both_iff ends_with_is_wildcard from_utf8_lossy_id)
  qed
  show ?thesis
  proof (cases "check_candidates R ?T [] (split_on COLON a)")
    case (Some d)
    have "\<forall>s\<in>set (split_on COLON a). s \<noteq> []"
      using p by (auto simp: pattern_spec_def plain_segment_def dest!: segments_ok_plain)
    then obtain xs ys where xs: "split_on COLON a = xs @ ys" "xs \<noteq> []" "starstar \<notin> set xs"
        "radix_get R ?T (join_with COLON (xs @ [starstar])) \<noteq> None"
        "d = from_utf8_lossy (join_with COLON (xs @ [starstar]))"
      using check_candidates_Some [of R ?T "[]" "split_on COLON a" d] Some by auto
    have "\<forall>x\<in>set (xs @ [starstar]). COLON \<notin> set x"
      using split_pattern_colon [of a] xs(1) by auto
    then have "split_on COLON (join_with COLON (xs @ [starstar])) = xs @ [starstar]"
      by (intro split_join) auto
    then have "compare_segments_bytes a (join_with COLON (xs @ [starstar])) True"
      using compare_loop_ancestor xs by (simp add: compare_segments_bytes_def)
    with key [OF xs(4)] xs(5) Some c show ?thesis
      by (auto simp: check_prefix_wildcard_conflicts_def split: if_splits)
  next
    case None
    then obtain j v where "find (\<lambda>(k, _). k \<noteq> a \<and> compare_segments_bytes a k True)
        (radix_walk_prefix R ?T (static_prefix_bytes a)) = Some (j, v)" "k = from_utf8_lossy j"
      using c by (auto simp: check_prefix_wildcard_conflicts_def split: if_splits option.splits)
    then have "radix_get R ?T j \<noteq> None" "compare_segments_bytes a j True" "k = from_utf8_lossy j"
      using walk_prefix [of ?T "static_prefix_bytes a"] by (auto dest!: find_Some_set)
    with key show ?thesis by auto
  qed
qed

lemma single_conflict:
  assumes ok: "registry_ok R inn" and "(q, v) \<in> set (single_wildcards inn)"
  shows "find_route R q inn \<noteq> None \<and> is_wildcard q \<and> pattern_spec q \<and> \<not> ends_with q starstar \<and>
    from_utf8_lossy q = q"
proof -
  have m: "q \<in> set (map fst (single_wildcards inn))" using assms(2) by force
  then have "map_of (single_wildcards inn) q \<noteq> None" by (simp add: map_of_eq_None_iff)
  with m ok show ?thesis by (auto simp: find_route_eq registry_ok_def from_utf8_lossy_id)
qed

lemma conflict_concrete_real:
  assumes ok: "registry_ok R inn" and c: "concrete a"
    and "check_address_free R inn a = Inr (Conflict k)"
  shows "find_route R k inn \<noteq> None \<and> is_wildcard k \<and> covers k a"
proof -
  have "get_exact R inn a = Conflict k" using assms c by (simp add: check_address_free_def concrete_wildcard)
  then obtain q v where "(q, v) \<in> set (single_wildcards inn)" "compare_segments_bytes q a False"
      "k = from_utf8_lossy q"
    using walk_path_concrete [OF ok c]
    by (auto simp: get_exact_def dest!: find_Some_set split: option.splits)
  with single_conflict [OF ok] compare_concrete [OF _ c] show ?thesis by (auto simp: covers_def)
qed

lemma conflict_wildcard_real:
  assumes ok: "registry_ok R inn" and w: "is_wildcard a"
    and cf: "check_address_free R inn a = Inr (Conflict k)"
  shows "find_route R k inn \<noteq> None \<and> (if is_wildcard k then overlap a k else pattern_matches a k)"
proof -
  have p: "pattern_spec a" and g: "get_wildcard R inn a = Conflict k"
    using cf w by (auto simp: check_address_free_def validate_wildcard_pattern_Inr [symmetric] split: sum.splits)
  consider (pre) "check_prefix_wildcard_conflicts R (prefix_wildcard_tree inn) a = Some k"
    | (single) q v where "(q, v) \<in> set (single_wildcards inn)" "compare_segments_bytes q a True"
        "k = from_utf8_lossy q"
    | (exact) j v where "radix_get R (exact_tree inn) j = Some v" "compare_segments_bytes a j False"
        "k = from_utf8_lossy j"
    using g walk_prefix [of "exact_tree inn" "static_prefix_bytes a"]
    by (auto simp: get_wildcard_def dest!: find_Some_set split: option.splits)
  then show ?thesis
  proof cases
    case pre
    then show ?thesis using prefix_conflict_real ok p by simp
  next
    case (single q v)
    with single_conflict [OF ok, of q v] p show ?thesis
      by (auto simp: overlap_def compare_both_iff)
  next
    case (exact j v)
    then have "concrete j" "from_utf8_lossy j = j"
      using ok by (auto simp: registry_ok_def intro: from_utf8_lossy_id)
    with exact p show ?thesis by (auto simp: compare_concrete find_route_eq concrete_wildcard)
  qed
qed

end

section \<open>Properties\<close>

lemma validate_segments_errors: "validate_segments p f ss = Inl e \<Longrightarrow> \<exists>msg. e = InvalidWildcardFormat msg"
  by (induction p f ss rule: validate_segments.induct) (auto split: if_splits)

lemma validate_errors: "validate_wildcard_pattern p = Inl e \<Longrightarrow> \<exists>msg. e = InvalidWildcardFormat msg"
  by (auto simp: validate_wildcard_pattern_def split: if_splits dest: validate_segments_errors)

lemma fst_register_free: "register E a t w = (Inr (), w') \<Longrightarrow>
    check_address_free (d_radix E) (inner w) a = Inr NotFound \<and>
    inner w' = insert_route (d_radix E) a t (inner w)"
  using register_ok_iff [of E a t w] register_inner [of E a t w] by simp

text \<open>
  C9. In every reachable state of the process the registry satisfies its invariant: the three
  structures hold only keys of their kind, all valid; no two registered single-segment wildcards
  can match the same address, and none matches a registered exact address.
\<close>

theorem registry_invariant:
  assumes "route_radix (d_radix E)" and "registry_reachable E w"
  shows "registry_ok (d_radix E) (inner w)"
  using assms by (rule registry_reachable_ok)

text \<open>
  C6. Exclusive binding: in a reachable registry at most one registered key receives a given
  concrete address, and a lookup returns exactly the target registered under that key, or
  nothing when there is no such key.
\<close>

theorem lookup_exclusive:
  assumes "route_radix (d_radix E)" and "registry_reachable E w" and "concrete a"
  shows "(lookup E a w = Some t \<longleftrightarrow> (\<exists>k. routes E w k = Some t \<and> covers k a)) \<and>
    (\<forall>k l. routes E w k \<noteq> None \<and> covers k a \<and> routes E w l \<noteq> None \<and> covers l a \<longrightarrow> k = l)"
  using route_radix.lookup_covers [OF assms(1) registry_reachable_ok [OF assms(1,2)] assms(3)]
    route_radix.covers_unique [OF assms(1) registry_reachable_ok [OF assms(1,2)] assms(3)]
  unfolding lookup_def routes_def by blast

text \<open>
  C7. A successful registration extends the map of routes by exactly the new key and changes the
  result of a lookup exactly for the concrete addresses the new key receives; a refused one
  changes nothing at all.
\<close>

theorem register_refines:
  assumes "route_radix (d_radix E)" and "registry_reachable E w" and "is_utf8 a"
    and "register E a t w = (r, w')"
  shows "if r = Inr ()
    then routes E w' = (routes E w)(a \<mapsto> t) \<and> routes E w a = None \<and>
      (\<forall>b. concrete b \<longrightarrow> lookup E b w' = (if covers a b then Some t else lookup E b w))
    else w' = w"
proof (cases "r = Inr ()")
  case True
  let ?R = "d_radix E"
  have f: "check_address_free ?R (inner w) a = Inr NotFound" and i: "inner w' = insert_route ?R a t (inner w)"
    using fst_register_free assms(4) True by blast+
  note ok = registry_reachable_ok [OF assms(1,2)]
  have "routes E w' = (routes E w)(a \<mapsto> t)"
    using route_radix.find_route_insert [OF assms(1) ok f] i by (auto simp: routes_def fun_eq_iff)
  moreover have "routes E w a = None"
    using route_radix.check_free_find_route [OF assms(1) f] by (simp add: routes_def)
  ultimately show ?thesis
    using route_radix.lookup_route_insert [OF assms(1) ok _ assms(3) f] True i by (simp add: lookup_def)
next
  case False
  with assms(4) show ?thesis
    by (auto simp: register_def split: sum.splits lookup_result.splits)
qed

text \<open>
  A concrete address can be registered exactly when no message sent to it would currently
  be routed: registration and lookup agree on which addresses are taken.
\<close>

theorem register_concrete_iff:
  assumes "route_radix (d_radix E)" and "registry_reachable E w" and "concrete a"
  shows "fst (register E a t w) = Inr () \<longleftrightarrow> \<not> has_route E a w"
  using route_radix.check_free_concrete [OF assms(1) registry_reachable_ok [OF assms(1,2)] assms(3)]
  by (simp add: register_ok_iff has_route_def lookup_def)

text \<open>
  C8. Unregistering never fails. It removes the key, and with it the routes of exactly the
  addresses the key received, only when the key's target has the given slot; the subscription of
  another owner of the same address is left untouched, state included.
\<close>

theorem unregister_refines:
  assumes "route_radix (d_radix E)" and "registry_reachable E w" and "unregister E a s w = (r, w')"
  shows "r = Inr () \<and>
    (case routes E w a of
       Some t \<Rightarrow>
         if target_slot w t = s
         then routes E w' = (routes E w)(a := None) \<and>
           (\<forall>b. concrete b \<longrightarrow> lookup E b w' = (if covers a b then None else lookup E b w)) \<and>
           target_send E t m w' = Ready (Inl ConnectionClosed)
         else w' = w
     | None \<Rightarrow> w' = w)"
proof (cases "routes E w a")
  case None
  then show ?thesis using assms(3) by (simp add: unregister_def routes_def)
next
  case (Some t)
  note ok = registry_reachable_ok [OF assms(1,2)]
  have f: "find_route (d_radix E) a (inner w) = Some t" using Some by (simp add: routes_def)
  show ?thesis
  proof (cases "target_slot w t = s")
    case True
    have w': "inner w' = delete_route (d_radix E) a (inner w)" and r: "r = Inr ()"
      using unregister_hit [OF f True] assms(3) by auto
    have "slot_sender (slots w' (target_slot w' t)) = None"
      using unregister_hit_closes(1) [OF f True] unregister_hit_closes(2) [OF f True, of t] assms(3) True by simp
    then have "target_send E t m w' = Ready (Inl ConnectionClosed)" by (rule target_send_removed)
    moreover have "routes E w' = (routes E w)(a := None)"
      using route_radix.find_route_delete [OF assms(1) ok] True by (auto simp: routes_def fun_eq_iff w')
    moreover have "lookup E b w' = (if covers a b then None else lookup E b w)" if "concrete b" for b
      using route_radix.lookup_route_delete [OF assms(1) ok that] f True by (simp add: lookup_def w')
    ultimately show ?thesis using Some True r by simp
  next
    case False
    then have "unregister E a s w = (Inr (), w)"
      using f remove_slot_miss [OF False] by (simp add: unregister_def)
    with Some False assms(3) show ?thesis by simp
  qed
qed

text \<open>
  \<open>get_existing_or_register\<close> is atomic: on an address that is taken it returns the target
  already there and changes nothing, the factory not being run; when it has registered a target, the
  next call on the address, whatever its factory, returns that same target.
\<close>

theorem get_existing_or_register_once:
  assumes "route_radix (d_radix E)" and "registry_reachable E w" and "is_utf8 a"
    and "is_wildcard a \<longrightarrow> pattern_spec a" and "factory_frame factory"
    and "get_existing_or_register E a factory w = Some (Inr res, w')"
  shows "case res of
      AlreadyExists t \<Rightarrow> routes E w a = Some t \<and> w' = w
    | Registered t \<Rightarrow> routes E w a = None \<and> routes E w' = (routes E w)(a \<mapsto> t) \<and>
        get_existing_or_register E a other w' = Some (Inr (AlreadyExists t), w')"
proof (cases res)
  case (AlreadyExists t)
  then have "check_address_free (d_radix E) (inner w) a = Inr (Duplicate t)" and "w' = w"
    using assms(6)
    by (auto simp: get_existing_or_register_def split: sum.splits lookup_result.splits option.splits)
  with AlreadyExists route_radix.duplicate_find_route [OF assms(1)] show ?thesis by (simp add: routes_def)
next
  case (Registered t)
  let ?R = "d_radix E"
  note ok = registry_reachable_ok [OF assms(1,2)]
  have f: "check_address_free ?R (inner w) a = Inr NotFound" and i: "inner w' = insert_route ?R a t (inner w)"
    using assms(6) Registered
    by (auto simp: get_existing_or_register_def split: sum.splits lookup_result.splits option.splits)
  have m: "routes E w' = (routes E w)(a \<mapsto> t)"
    using route_radix.find_route_insert [OF assms(1) ok f] i by (auto simp: routes_def fun_eq_iff)
  then have "find_route ?R a (inner w') = Some t" by (metis fun_upd_same routes_def)
  then have "check_address_free ?R (inner w') a = Inr (Duplicate t)"
    using route_radix.duplicate_find_route [OF assms(1)] assms(4) by blast
  then show ?thesis
    using Registered m route_radix.check_free_find_route [OF assms(1) f]
    by (simp add: get_existing_or_register_def routes_def)
qed

text \<open>
  C33. A conflict error is always justified: it leaves the state as it was and names a registered
  key, which for a concrete address is a pattern that receives it, and for a pattern either
  another pattern that shares a concrete address with it or an exact address it matches.
\<close>

theorem register_conflict_real:
  assumes "route_radix (d_radix E)" and "registry_reachable E w"
    and "register E a t w = (Inl (if is_wildcard a then WildcardConflict a k else ConflictsWithWildcard a k), w')"
  shows "w' = w \<and> routes E w k \<noteq> None \<and>
    (if \<not> is_wildcard a then covers k a
     else if is_wildcard k then overlap a k
     else pattern_matches a k)"
proof -
  have w': "w' = w" and c: "check_address_free (d_radix E) (inner w) a = Inr (Conflict k)"
    using assms(3) validate_errors [of a]
    by (auto simp: register_def check_address_free_def split: sum.splits lookup_result.splits if_splits)
  note ok = registry_reachable_ok [OF assms(1,2)]
  show ?thesis
    using route_radix.conflict_concrete_real [OF assms(1) ok _ c]
      route_radix.conflict_wildcard_real [OF assms(1) ok _ c] w'
    by (auto simp: routes_def concrete_wildcard)
qed

text \<open>
  C40. Patterns that end in \<open>**\<close> receive nothing and protect nothing: registering one changes
  neither the lookup of a concrete address nor whether that address can be registered later, since
  the tree is asked for an ancestor of the address in bytes and the stored key contains the stars.
\<close>

theorem prefix_wildcard_never_routed:
  assumes "route_radix (d_radix E)" and "registry_reachable E w" and "is_utf8 p"
    and "ends_with p starstar" and "concrete a"
  shows "lookup E a (snd (register E p t w)) = lookup E a w \<and>
    (fst (register E a u (snd (register E p t w))) = Inr () \<longleftrightarrow> fst (register E a u w) = Inr ())"
proof -
  let ?w' = "snd (register E p t w)"
  have "registry_reachable E ?w'"
    using assms(2,3) by (metis prod.collapse reach_step step_register)
  then have "registry_ok (d_radix E) (inner ?w')" "registry_ok (d_radix E) (inner w)"
    using registry_reachable_ok assms(1,2) by blast+
  then have "fst (register E a u v) = Inr () \<longleftrightarrow> lookup E a v = None" if "v = w \<or> v = ?w'" for v
    using route_radix.check_free_concrete [OF assms(1) _ assms(5)] that
    by (auto simp: register_ok_iff lookup_def)
  moreover have "lookup E a ?w' = lookup E a w"
  proof (cases "check_address_free (d_radix E) (inner w) p = Inr NotFound")
    case True
    have "\<not> covers p a" using assms(4) ends_with_is_wildcard by (simp add: covers_def)
    with True show ?thesis
      using route_radix.lookup_route_insert [OF assms(1) registry_reachable_ok [OF assms(1,2)] assms(5,3) True]
      by (simp add: lookup_def register_inner)
  qed (simp add: lookup_def register_inner)
  ultimately show ?thesis by simp
qed

section \<open>Sample registries\<close>

abbreviation w_empty :: std_world where
  "w_empty \<equiv> world_new std_deps"

definition w_pattern :: std_world where
  "w_pattern = snd (register std_deps (ascii ''a:*'') (Single 7) w_empty)"

lemma std_route_radix: "route_radix (d_radix std_deps)"
  by (simp add: std_deps_def route_alist.route_radix_axioms)

lemma w_empty_reachable: "registry_reachable std_deps w_empty"
  by (rule reach_new) (simp add: world_new_def)

lemma w_pattern_reachable: "registry_reachable std_deps w_pattern"
proof -
  have "is_utf8 (ascii ''a:*'')" by simp
  then show ?thesis
    unfolding w_pattern_def using reach_step [OF w_empty_reachable] step_register surjective_pairing by metis
qed

lemmas registry_eval = register_def unregister_def check_address_free_def get_exact_def get_wildcard_def
  wildcard_duplicate_def insert_route_def validate_wildcard_pattern_def check_prefix_wildcard_conflicts_def
  compare_segments_bytes_def static_prefix_bytes_def registry_new_def world_new_def std_deps_def
  alist_radix_def is_wildcard_def ends_with_def star_defs COLON_def alist_drop_def

lemma w_pattern_eval:
  "inner w_pattern = \<lparr>exact_tree = [], prefix_wildcard_tree = [],
     single_wildcards = [(ascii ''a:*'', Single 7)]\<rparr>"
  by (simp add: w_pattern_def registry_eval)

lemma w_pattern_register: "register std_deps (ascii ''a:*'') (Single 7) w_empty = (Inr (), w_pattern)"
  by (simp add: w_pattern_def registry_eval)

lemma w_pattern_refuse:
  "register std_deps (ascii ''a:b'') (Single 8) w_pattern =
     (Inl (ConflictsWithWildcard (ascii ''a:b'') (ascii ''a:*'')), w_pattern)"
  by (simp add: registry_eval w_pattern_eval from_utf8_lossy_id del: from_utf8_lossy.simps(2))

lemma w_pattern_unregister:
  "unregister std_deps (ascii ''a:*'') 7 w_pattern =
     (Inr (), snd (unregister std_deps (ascii ''a:*'') 7 w_pattern))"
  by (simp add: unregister_def split_beta Let_def split: option.split)

lemma ab_concrete: "concrete (ascii ''a:b'')"
  by (simp add: concrete_def STAR_def)

section \<open>Overlaps the checks do not see\<close>

text \<open>
  A pattern that ends in \<open>**\<close> and has an inner \<open>*\<close> lies outside the static prefix of a later pattern and
  is missed when that pattern is registered; and an exact address is missed by a pattern that matches
  it with no trailing segment, since the static prefix of the pattern ends in a colon.
\<close>

lemma prefix_pattern_missed:
  "fst (register std_deps (ascii ''a:*:**'') (Single 1) w_empty) = Inr () \<and>
   fst (register std_deps (ascii ''a:b:*'') (Single 2)
     (snd (register std_deps (ascii ''a:*:**'') (Single 1) w_empty))) = Inr () \<and>
   compare_segments_bytes (ascii ''a:*:**'') (ascii ''a:b:*'') True"
  by (simp add: registry_eval Let_def)

lemma exact_address_missed:
  "fst (register std_deps (ascii ''a:b'') (Single 1) w_empty) = Inr () \<and>
   fst (register std_deps (ascii ''a:b:**'') (Single 2)
     (snd (register std_deps (ascii ''a:b'') (Single 1) w_empty))) = Inr () \<and>
   pattern_matches (ascii ''a:b:**'') (ascii ''a:b'')"
  by (simp add: registry_eval Let_def pattern_matches_def segments_match_def segment_matches_def)

section \<open>Witnesses\<close>

theorem registry_invariant_witness: "registry_ok (d_radix std_deps) (inner w_pattern)"
  using registry_invariant [OF std_route_radix w_pattern_reachable] .

theorem lookup_exclusive_witness:
  "lookup std_deps (ascii ''a:b'') w_pattern = Some (Single 7)"
proof -
  have "routes std_deps w_pattern (ascii ''a:*'') = Some (Single 7)"
    by (simp add: routes_def find_route_def w_pattern_eval is_wildcard_def ends_with_def star_defs)
  moreover have "covers (ascii ''a:*'') (ascii ''a:b'')"
    by (simp add: covers_def is_wildcard_def ends_with_def pattern_matches_def segments_match_def
        segment_matches_def star_defs COLON_def)
  ultimately show ?thesis
    using lookup_exclusive [OF std_route_radix w_pattern_reachable ab_concrete, of "Single 7"] by blast
qed

theorem register_refines_witness:
  "routes std_deps w_pattern = (routes std_deps w_empty)(ascii ''a:*'' \<mapsto> Single 7)"
  using register_refines [OF std_route_radix w_empty_reachable _ w_pattern_register] by simp

theorem register_concrete_iff_witness:
  "fst (register std_deps (ascii ''a:b'') (Single 8) w_pattern) = Inr () \<longleftrightarrow>
   \<not> has_route std_deps (ascii ''a:b'') w_pattern"
  using register_concrete_iff [OF std_route_radix w_pattern_reachable ab_concrete] .

theorem unregister_refines_witness:
  "routes std_deps (snd (unregister std_deps (ascii ''a:*'') 7 w_pattern)) =
   (routes std_deps w_pattern)(ascii ''a:*'' := None)"
proof -
  have "routes std_deps w_pattern (ascii ''a:*'') = Some (Single 7)"
    by (simp add: routes_def find_route_def w_pattern_eval is_wildcard_def ends_with_def star_defs)
  then show ?thesis
    using unregister_refines [OF std_route_radix w_pattern_reachable w_pattern_unregister]
    by (simp add: target_slot_def)
qed

definition sample_factory :: "std_world \<Rightarrow> ((registry_error + route_target) \<times> std_world) option" where
  "sample_factory w = Some (Inr (Single (next_id w)), fresh w)"

theorem get_existing_or_register_once_witness:
  "routes std_deps (snd (the (get_existing_or_register std_deps (ascii ''a:b'') sample_factory w_empty))) =
   (routes std_deps w_empty)(ascii ''a:b'' \<mapsto> Single 0)"
proof -
  let ?r = "get_existing_or_register std_deps (ascii ''a:b'') sample_factory w_empty"
  have r: "?r = Some (Inr (Registered (Single 0)), snd (the ?r))"
    by (simp add: get_existing_or_register_def sample_factory_def registry_eval)
  have "factory_frame sample_factory" by (simp add: factory_frame_def sample_factory_def fresh_def)
  moreover have "is_utf8 (ascii ''a:b'')" by simp
  moreover have "is_wildcard (ascii ''a:b'') \<longrightarrow> pattern_spec (ascii ''a:b'')"
    by (simp add: is_wildcard_def STAR_def)
  ultimately show ?thesis
    using get_existing_or_register_once [OF std_route_radix w_empty_reachable _ _ _ r, of sample_factory]
    by simp
qed

theorem register_conflict_real_witness: "covers (ascii ''a:*'') (ascii ''a:b'')"
  using register_conflict_real [OF std_route_radix w_pattern_reachable,
      of "ascii ''a:b''" "Single 8" "ascii ''a:*''" w_pattern] w_pattern_refuse
  by (simp add: is_wildcard_def STAR_def)

theorem prefix_wildcard_never_routed_witness:
  "pattern_matches (ascii ''a:**'') (ascii ''a:b'') \<and>
   lookup std_deps (ascii ''a:b'') (snd (register std_deps (ascii ''a:**'') (Single 9) w_empty)) = None"
proof -
  have "lookup std_deps (ascii ''a:b'') w_empty = None"
    by (simp add: lookup_def lookup_route_def registry_eval)
  moreover have "is_utf8 (ascii ''a:**'')" "ends_with (ascii ''a:**'') starstar"
    by (simp_all add: ends_with_def star_defs)
  ultimately show ?thesis
    using prefix_wildcard_never_routed [OF std_route_radix w_empty_reachable _ _ ab_concrete]
    by (simp add: pattern_matches_def segments_match_def segment_matches_def star_defs COLON_def)
qed

end
