(* ===== verification/Config.thy ===== *)
theory Config
  imports World
begin

text \<open>
  \<^verbatim>\<open>src/config/mod.rs\<close>: the configuration records, their defaults and their builders
  (\<^verbatim>\<open>usize\<close> is a 64-bit word). The lemmas show that the builders accept exactly the capacities
  in range, and that the channel of an accepted configuration can always be created: tokio's
  \<^verbatim>\<open>mpsc::channel\<close> panics on zero and above its own limit.
\<close>

type_synonym usize = u64

definition DEFAULT_REPLY_CHANNEL_CAPACITY :: usize where "DEFAULT_REPLY_CHANNEL_CAPACITY = 1024"
definition DEFAULT_CHANNEL_CAPACITY :: usize where "DEFAULT_CHANNEL_CAPACITY = 1024"
definition MAX_CHANNEL_CAPACITY :: usize where "MAX_CHANNEL_CAPACITY = 65536"
definition MAX_REPLY_CHANNEL_CAPACITY :: usize where "MAX_REPLY_CHANNEL_CAPACITY = 65536"
definition DEFAULT_REQUEST_TIMEOUT_MS :: u64 where "DEFAULT_REQUEST_TIMEOUT_MS = 30000"
definition DEFAULT_TTL :: u8 where "DEFAULT_TTL = 64"

lemmas config_consts = DEFAULT_REPLY_CHANNEL_CAPACITY_def DEFAULT_CHANNEL_CAPACITY_def
  MAX_CHANNEL_CAPACITY_def MAX_REPLY_CHANNEL_CAPACITY_def DEFAULT_REQUEST_TIMEOUT_MS_def DEFAULT_TTL_def

datatype config_error = ZeroCapacity | CapacityExceedsLimit usize | ReplyCapacityExceedsLimit usize

record broker_config =
  request_timeout_ms :: u64
  default_ttl :: u8

definition broker_config_default :: broker_config where
  "broker_config_default = \<lparr>request_timeout_ms = DEFAULT_REQUEST_TIMEOUT_MS, default_ttl = DEFAULT_TTL\<rparr>"

definition with_request_timeout_ms :: "u64 \<Rightarrow> broker_config \<Rightarrow> broker_config" where
  "with_request_timeout_ms timeout_ms c = c\<lparr>request_timeout_ms := timeout_ms\<rparr>"

definition with_default_ttl :: "u8 \<Rightarrow> broker_config \<Rightarrow> broker_config" where
  "with_default_ttl t c = c\<lparr>default_ttl := t\<rparr>"

text \<open>\<^verbatim>\<open>Duration::from_millis\<close>; a duration is its length in milliseconds.\<close>

definition request_timeout :: "broker_config \<Rightarrow> nat" where
  "request_timeout c = unat (request_timeout_ms c)"

record client_config =
  reply_channel_capacity :: usize

definition client_config_default :: client_config where
  "client_config_default = \<lparr>reply_channel_capacity = DEFAULT_REPLY_CHANNEL_CAPACITY\<rparr>"

definition with_reply_channel_capacity :: "usize \<Rightarrow> client_config \<Rightarrow> config_error + client_config" where
  "with_reply_channel_capacity capacity c =
     (if capacity = 0 then Inl ZeroCapacity
      else if capacity > MAX_REPLY_CHANNEL_CAPACITY then Inl (ReplyCapacityExceedsLimit capacity)
      else Inr (c\<lparr>reply_channel_capacity := capacity\<rparr>))"

record subscriber_config =
  channel_capacity :: usize
  routing_policy :: routing_policy

definition subscriber_config_default :: subscriber_config where
  "subscriber_config_default = \<lparr>channel_capacity = DEFAULT_CHANNEL_CAPACITY, routing_policy = Exclusive\<rparr>"

definition with_channel_capacity :: "usize \<Rightarrow> subscriber_config \<Rightarrow> config_error + subscriber_config" where
  "with_channel_capacity capacity c =
     (if capacity = 0 then Inl ZeroCapacity
      else if capacity > MAX_CHANNEL_CAPACITY then Inl (CapacityExceedsLimit capacity)
      else Inr (c\<lparr>channel_capacity := capacity\<rparr>))"

section \<open>Configurations that the builders produce\<close>

definition capacity_ok :: "usize \<Rightarrow> bool" where
  "capacity_ok n \<longleftrightarrow> 1 \<le> unat n \<and> unat n \<le> 65536"

inductive built_subscriber :: "subscriber_config \<Rightarrow> bool" where
  built_default: "built_subscriber subscriber_config_default"
| built_capacity: "built_subscriber c \<Longrightarrow> with_channel_capacity n c = Inr c' \<Longrightarrow> built_subscriber c'"
| built_policy: "built_subscriber c \<Longrightarrow> built_subscriber (c\<lparr>routing_policy := p\<rparr>)"

inductive built_client :: "client_config \<Rightarrow> bool" where
  built_client_default: "built_client client_config_default"
| built_client_capacity: "built_client c \<Longrightarrow> with_reply_channel_capacity n c = Inr c' \<Longrightarrow> built_client c'"

lemma capacity_ok_iff:
  "capacity_ok n \<longleftrightarrow> n \<noteq> 0 \<and> \<not> n > MAX_CHANNEL_CAPACITY"
  "capacity_ok n \<longleftrightarrow> n \<noteq> 0 \<and> \<not> n > MAX_REPLY_CHANNEL_CAPACITY"
  by (simp_all add: capacity_ok_def config_consts word_less_nat_alt not_less Suc_le_eq unat_gt_0)

lemma with_capacity_Inr:
  "with_channel_capacity n c = Inr c' \<longleftrightarrow> capacity_ok n \<and> c' = c\<lparr>channel_capacity := n\<rparr>"
  "with_reply_channel_capacity n k = Inr k' \<longleftrightarrow> capacity_ok n \<and> k' = k\<lparr>reply_channel_capacity := n\<rparr>"
  by (auto simp: with_channel_capacity_def with_reply_channel_capacity_def capacity_ok_iff(1)
      capacity_ok_iff(2) config_consts)

lemma built_subscriber_ok: "built_subscriber c \<Longrightarrow> capacity_ok (channel_capacity c)"
  by (induction rule: built_subscriber.induct)
    (auto simp: with_capacity_Inr subscriber_config_default_def capacity_ok_def config_consts)

lemma built_client_ok: "built_client c \<Longrightarrow> capacity_ok (reply_channel_capacity c)"
  by (induction rule: built_client.induct)
    (auto simp: with_capacity_Inr client_config_default_def capacity_ok_def config_consts)

context mpsc
begin

lemma create_channel_ok:
  "capacity_ok n \<Longrightarrow> \<exists>c. create_channel M (unat n) = Some c \<and> queue c = [] \<and> cap c = unat n \<and> txs c = 1 \<and> rx c"
  using mp_new [of "unat n"] by (simp add: create_channel_def capacity_ok_def MAX_PERMITS_def)

end

section \<open>Properties\<close>

text \<open>
  A configuration assembled from the defaults with the builders never makes channel creation
  panic: the channel of a subscriber and the reply channel of a client are created empty, with
  exactly the configured capacity, which is between 1 and 65536.
\<close>

theorem built_config_channels:
  assumes "mpsc M queue cap txs rx" and "built_subscriber c" and "built_client k"
  shows "(\<exists>ch. create_channel M (unat (channel_capacity c)) = Some ch \<and> queue ch = [] \<and>
      cap ch = unat (channel_capacity c) \<and> 1 \<le> cap ch \<and> cap ch \<le> 65536) \<and>
    (\<exists>ch. create_channel M (unat (reply_channel_capacity k)) = Some ch \<and> queue ch = [] \<and>
      cap ch = unat (reply_channel_capacity k) \<and> 1 \<le> cap ch \<and> cap ch \<le> 65536)"
  using mpsc.create_channel_ok [OF assms(1) built_subscriber_ok [OF assms(2)]]
    mpsc.create_channel_ok [OF assms(1) built_client_ok [OF assms(3)]]
    built_subscriber_ok [OF assms(2)] built_client_ok [OF assms(3)]
  by (auto simp: capacity_ok_def)

section \<open>Witnesses\<close>

lemma sample_subscriber: "built_subscriber \<lparr>channel_capacity = 16, routing_policy = LoadBalancedPolicy\<rparr>"
proof -
  have "with_channel_capacity 16 subscriber_config_default =
      Inr \<lparr>channel_capacity = 16, routing_policy = Exclusive\<rparr>"
    by (simp add: with_channel_capacity_def subscriber_config_default_def config_consts)
  then have "built_subscriber \<lparr>channel_capacity = 16, routing_policy = Exclusive\<rparr>"
    using built_capacity [OF built_default] by blast
  from built_policy [OF this, of LoadBalancedPolicy] show ?thesis by simp
qed

theorem built_config_channels_witness:
  "\<exists>ch. create_channel bq_ops (unat (16 :: u64)) = Some ch \<and> bq_cap ch = 16"
  using built_config_channels [OF bq.mpsc_axioms sample_subscriber built_client_default] by auto

end
