(* ===== verification/Environment.thy ===== *)
theory Environment
  imports Registry_Spec Config
begin

text \<open>
  The contract of all dependencies at once: message channels, request channels, reply cells and
  radix trees. The components below rely on this one interface; it is interpreted on the instances
  of this development.
\<close>

locale env =
  msgs: mpsc "d_msgs E" queue cap txs rx +
  requests: mpsc "d_reqs E" rqueue rcap rtxs rrx +
  cells: oneshot "d_oneshots E" cstate +
  tree: route_radix "d_radix E"
  for E :: "('t, 'c, 'd, 'o) deps"
    and queue :: "'c \<Rightarrow> message list" and cap :: "'c \<Rightarrow> nat" and txs :: "'c \<Rightarrow> nat" and rx :: "'c \<Rightarrow> bool"
    and rqueue :: "'d \<Rightarrow> nat list" and rcap :: "'d \<Rightarrow> nat" and rtxs :: "'d \<Rightarrow> nat" and rrx :: "'d \<Rightarrow> bool"
    and cstate :: "'o \<Rightarrow> message os_state"
begin

text \<open>The outcomes of a send on a stored channel whose receiver lives.\<close>

lemma chan_send_cases:
  assumes "chans w ch = Some c" and "rx c"
  obtains (full) "cap c \<le> length (queue c)" "chan_send E ch m w = Pending"
  | (sent) c' where "length (queue c) < cap c"
      "chan_send E ch m w = Ready (Inr (w\<lparr>chans := (chans w)(ch \<mapsto> c')\<rparr>))"
      "queue c' = queue c @ [m]" "cap c' = cap c" "txs c' = txs c" "rx c'"
  using assms by (cases rule: msgs.sender_send_cases [OF assms(2), of m]) (auto simp: chan_send_def)

lemma chan_send_gone:
  assumes "chans w ch = Some c" and "\<not> rx c"
  shows "chan_send E ch m w = Ready (Inl (SendError m))"
  using assms msgs.mp_send_closed by (simp add: chan_send_def sender_send_def)

lemma chan_send_full:
  assumes "chans w ch = Some c" and "rx c" and "cap c \<le> length (queue c)"
  shows "chan_send E ch m w = Pending"
  using assms msgs.mp_send_full by (simp add: chan_send_def sender_send_def)

lemma chan_is_closed_iff: "chans w ch = Some c \<Longrightarrow> chan_is_closed E ch w \<longleftrightarrow> \<not> rx c"
  by (simp add: chan_is_closed_def sender_is_closed_def msgs.mp_closed_iff)

end

interpretation std: env std_deps bq_items bq_cap bq_txs bq_rx bq_items bq_cap bq_txs bq_rx "\<lambda>s. s"
  unfolding env_def
  by (simp add: std_deps_def bq.mpsc_axioms cell.oneshot_axioms route_alist.route_radix_axioms)

end
