(* ===== verification/Dispatcher.thy ===== *)
theory Dispatcher
  imports Environment
begin

text \<open>
  The background task that \<^verbatim>\<open>LoadBalancedGroup::new\<close> spawns (\<^verbatim>\<open>load_balanced_group.rs\<close>, lines
  74 to 134), as a step function on the state of the process: one step runs the task from one
  \<^verbatim>\<open>.await\<close> or delivery to the next; no step is possible while the future it awaits is pending.
  Abortion and the drop of a group are separate steps. The lemmas show that the dispatcher hands
  the messages of the queue to consumers in order, each to exactly one live consumer, what happens
  to the address when the task ends by itself, and what happens when it is aborted.
\<close>

section \<open>The task\<close>

datatype dispatcher_label = Silent | Delivered nat message | Dropped message | Ended

definition set_pc :: "nat \<Rightarrow> dispatcher_pc \<Rightarrow> ('t, 'c, 'd, 'o) world \<Rightarrow> ('t, 'c, 'd, 'o) world" where
  "set_pc t pc w = w\<lparr>tasks := (tasks w)(t := map_option (\<lambda>k. k\<lparr>task_pc := pc\<rparr>) (tasks w t))\<rparr>"

text \<open>
  Dropping the receiver of a request channel drops the tokens still queued, so that every consumer
  waiting behind one of them is told; the number of tokens is at most the capacity.
\<close>

fun drain_tokens :: "('d, nat) mpsc_ops \<Rightarrow> nat \<Rightarrow> 'd \<Rightarrow> nat list" where
  "drain_tokens Q 0 d = []"
| "drain_tokens Q (Suc n) d =
     (case mp_try_recv Q d of Inr (tok, d') \<Rightarrow> tok # drain_tokens Q n d' | Inl _ \<Rightarrow> [])"

definition drop_req_rx ::
    "('t, 'c, 'd, 'o) deps \<Rightarrow> nat \<Rightarrow> ('t, 'c, 'd, 'o) world \<Rightarrow> ('t, 'c, 'd, 'o) world" where
  "drop_req_rx E r w = (case reqs w r of
     None \<Rightarrow> w
   | Some d \<Rightarrow> req_drop_rx E r
       (fold (oneshot_drop_tx E) (drain_tokens (d_reqs E) (mp_max_capacity (d_reqs E) d) d) w))"

definition drop_receivers ::
    "('t, 'c, 'd, 'o) deps \<Rightarrow> task \<Rightarrow> ('t, 'c, 'd, 'o) world \<Rightarrow> ('t, 'c, 'd, 'o) world" where
  "drop_receivers E k w = chan_drop_rx E (task_main k) (drop_req_rx E (task_req k) w)"

text \<open>
  After the loop: the slot is marked removed, the address is unregistered if the registry is still
  alive (\<^verbatim>\<open>Weak::upgrade\<close>), and the receivers the future owns are dropped.
\<close>

definition dispatcher_finish ::
    "('t, 'c, 'd, 'o) deps \<Rightarrow> bool \<Rightarrow> nat \<Rightarrow> task \<Rightarrow> ('t, 'c, 'd, 'o) world \<Rightarrow> ('t, 'c, 'd, 'o) world" where
  "dispatcher_finish E alive t k w =
     (let w1 = mark_removed E (task_slot k) w;
          w2 = (if alive then snd (unregister E (task_address k) (task_slot k) w1) else w1)
      in set_pc t Finished (drop_receivers E k w2))"

definition task_recv_request ::
    "('t, 'c, 'd, 'o) deps \<Rightarrow> task \<Rightarrow> ('t, 'c, 'd, 'o) world \<Rightarrow> (nat \<times> ('t, 'c, 'd, 'o) world) option poll" where
  "task_recv_request E k w = (case reqs w (task_req k) of
     None \<Rightarrow> Pending
   | Some d \<Rightarrow> (case receiver_recv (d_reqs E) d of
       Pending \<Rightarrow> Pending
     | Ready None \<Rightarrow> Ready None
     | Ready (Some (tok, d')) \<Rightarrow> Ready (Some (tok, w\<lparr>reqs := (reqs w)(task_req k \<mapsto> d')\<rparr>))))"

definition task_recv_message ::
    "('t, 'c, 'd, 'o) deps \<Rightarrow> task \<Rightarrow> ('t, 'c, 'd, 'o) world \<Rightarrow> (message \<times> ('t, 'c, 'd, 'o) world) option poll" where
  "task_recv_message E k w = (case chans w (task_main k) of
     None \<Rightarrow> Pending
   | Some c \<Rightarrow> (case receiver_recv (d_msgs E) c of
       Pending \<Rightarrow> Pending
     | Ready None \<Rightarrow> Ready None
     | Ready (Some (m, c')) \<Rightarrow> Ready (Some (m, w\<lparr>chans := (chans w)(task_main k \<mapsto> c')\<rparr>))))"

text \<open>\<^verbatim>\<open>reply_tx.send(current_msg)\<close>: the token is consumed; the message comes back on failure.\<close>

definition reply_send ::
    "('t, 'c, 'd, 'o) deps \<Rightarrow> nat \<Rightarrow> message \<Rightarrow> ('t, 'c, 'd, 'o) world \<Rightarrow> message + ('t, 'c, 'd, 'o) world" where
  "reply_send E tok m w = (case oneshots w tok of
     None \<Rightarrow> Inl m
   | Some s \<Rightarrow> (case os_send (d_oneshots E) m s of
       Inl m' \<Rightarrow> Inl m'
     | Inr s' \<Rightarrow> Inr (w\<lparr>oneshots := (oneshots w)(tok \<mapsto> s')\<rparr>)))"

definition dispatcher_step ::
    "('t, 'c, 'd, 'o) deps \<Rightarrow> bool \<Rightarrow> nat \<Rightarrow> ('t, 'c, 'd, 'o) world \<Rightarrow>
     (dispatcher_label \<times> ('t, 'c, 'd, 'o) world) option" where
  "dispatcher_step E alive t w = (case tasks w t of None \<Rightarrow> None | Some k \<Rightarrow>
    (case task_pc k of
       WaitRequest \<Rightarrow> (case task_recv_request E k w of
         Pending \<Rightarrow> None
       | Ready None \<Rightarrow> Some (Ended, dispatcher_finish E alive t k w)
       | Ready (Some (tok, w')) \<Rightarrow> Some (Silent, set_pc t (WaitMessage tok) w'))
     | WaitMessage tok \<Rightarrow> (case task_recv_message E k w of
         Pending \<Rightarrow> None
       | Ready None \<Rightarrow> Some (Ended, dispatcher_finish E alive t k (oneshot_drop_tx E tok w))
       | Ready (Some (m, w')) \<Rightarrow> Some (Silent, set_pc t (Deliver tok m) w'))
     | Deliver tok m \<Rightarrow> (case reply_send E tok m w of
         Inr w' \<Rightarrow> Some (Delivered tok m, set_pc t WaitRequest w')
       | Inl m' \<Rightarrow> Some (Silent, set_pc t (WaitNext m') w))
     | WaitNext m \<Rightarrow> (case task_recv_request E k w of
         Pending \<Rightarrow> None
       | Ready None \<Rightarrow> Some (Dropped m, set_pc t WaitRequest w)
       | Ready (Some (tok, w')) \<Rightarrow> Some (Silent, set_pc t (Deliver tok m) w'))
     | Finished \<Rightarrow> None
     | Aborted \<Rightarrow> None))"

text \<open>
  An abort takes effect at an \<^verbatim>\<open>.await\<close>: the runtime drops the future, and with it the receivers,
  the token and the message it holds; the code after the loop does not run.
\<close>

definition dispatcher_abort ::
    "('t, 'c, 'd, 'o) deps \<Rightarrow> nat \<Rightarrow> ('t, 'c, 'd, 'o) world \<Rightarrow> ('t, 'c, 'd, 'o) world option" where
  "dispatcher_abort E t w = (case tasks w t of None \<Rightarrow> None | Some k \<Rightarrow>
    (if \<not> task_abort k then None
     else case task_pc k of
       WaitRequest \<Rightarrow> Some (set_pc t Aborted (drop_receivers E k w))
     | WaitMessage tok \<Rightarrow> Some (set_pc t Aborted (drop_receivers E k (oneshot_drop_tx E tok w)))
     | WaitNext m \<Rightarrow> Some (set_pc t Aborted (drop_receivers E k w))
     | _ \<Rightarrow> None))"

text \<open>
  \<^verbatim>\<open>Drop for LoadBalancedGroup\<close>: the group shuts down and releases its reference to the request
  sender, which is dropped with the last reference.
\<close>

definition req_sender_release ::
    "('t, 'c, 'd, 'o) deps \<Rightarrow> nat \<Rightarrow> ('t, 'c, 'd, 'o) world \<Rightarrow> ('t, 'c, 'd, 'o) world" where
  "req_sender_release E g w =
     (let n = grp_req_count (groups w g) - 1; r = grp_req (groups w g);
          w1 = w\<lparr>groups := (groups w)(g := (groups w g)\<lparr>grp_req_count := n\<rparr>)\<rparr>
      in if n = 0 then w1\<lparr>reqs := (reqs w1)(r := map_option (mp_drop_tx (d_reqs E)) (reqs w1 r))\<rparr> else w1)"

definition group_drop ::
    "('t, 'c, 'd, 'o) deps \<Rightarrow> nat \<Rightarrow> ('t, 'c, 'd, 'o) world \<Rightarrow> ('t, 'c, 'd, 'o) world" where
  "group_drop E g w = req_sender_release E g (group_shutdown E g w)"

text \<open>
  The factory that \<^verbatim>\<open>BrokerClient::subscribe\<close> passes for a load-balanced address: a queue, a slot
  holding its sender, and a group whose dispatcher owns the receiver. The request channel has
  capacity 1000.
\<close>

definition lb_factory ::
    "('t, 'c, 'd, 'o) deps \<Rightarrow> usize \<Rightarrow> bytes \<Rightarrow> ('t, 'c, 'd, 'o) world \<Rightarrow>
     ((registry_error + route_target) \<times> ('t, 'c, 'd, 'o) world) option" where
  "lb_factory E capacity addr w =
     (case create_channel (d_msgs E) (unat capacity) of
        None \<Rightarrow> None
      | Some c \<Rightarrow>
        (let (ch, w1) = chan_alloc c w; (s, w2) = slot_new ch w1
         in case new_load_balanced E s ch 1000 addr w2 of
              None \<Rightarrow> None
            | Some (target, w3) \<Rightarrow> Some (Inr target, w3)))"

section \<open>Frames\<close>

lemma lb_factory_frame: "factory_frame (lb_factory E capacity addr)"
  by (auto simp: factory_frame_def lb_factory_def chan_alloc_def slot_new_def fresh_def
      new_load_balanced_def group_new_def Let_def split: option.splits)

lemma set_pc_frame [frame_simps]:
  "inner (set_pc t pc w) = inner w" "chans (set_pc t pc w) = chans w" "slots (set_pc t pc w) = slots w"
  "groups (set_pc t pc w) = groups w" "reqs (set_pc t pc w) = reqs w"
  "oneshots (set_pc t pc w) = oneshots w" "next_id (set_pc t pc w) = next_id w"
  "tasks (set_pc t pc w) t' =
     (if t' = t then map_option (\<lambda>k. k\<lparr>task_pc := pc\<rparr>) (tasks w t) else tasks w t')"
  by (simp_all add: set_pc_def)

lemma oneshot_drop_frame [frame_simps]:
  "inner (oneshot_drop_tx E i w) = inner w" "chans (oneshot_drop_tx E i w) = chans w"
  "slots (oneshot_drop_tx E i w) = slots w" "groups (oneshot_drop_tx E i w) = groups w"
  "tasks (oneshot_drop_tx E i w) = tasks w" "reqs (oneshot_drop_tx E i w) = reqs w"
  by (simp_all add: oneshot_drop_tx_def)

lemma fold_oneshot_drop_frame [frame_simps]:
  "inner (fold (oneshot_drop_tx E) is w) = inner w \<and> chans (fold (oneshot_drop_tx E) is w) = chans w \<and>
   slots (fold (oneshot_drop_tx E) is w) = slots w \<and> groups (fold (oneshot_drop_tx E) is w) = groups w \<and>
   tasks (fold (oneshot_drop_tx E) is w) = tasks w \<and> reqs (fold (oneshot_drop_tx E) is w) = reqs w"
  by (induction "is" arbitrary: w) (simp_all add: frame_simps)

lemma drop_req_rx_frame [frame_simps]:
  "inner (drop_req_rx E r w) = inner w" "chans (drop_req_rx E r w) = chans w"
  "slots (drop_req_rx E r w) = slots w" "groups (drop_req_rx E r w) = groups w"
  "tasks (drop_req_rx E r w) = tasks w"
  by (simp_all add: drop_req_rx_def req_drop_rx_def frame_simps split: option.split)

lemma drop_receivers_frame [frame_simps]:
  "inner (drop_receivers E k w) = inner w" "slots (drop_receivers E k w) = slots w"
  "groups (drop_receivers E k w) = groups w" "tasks (drop_receivers E k w) = tasks w"
  by (simp_all add: drop_receivers_def frame_simps)

section \<open>Messages of a group\<close>

text \<open>What the task holds, and all messages of the group in the order they will be delivered.\<close>

fun held :: "dispatcher_pc \<Rightarrow> message list" where
  "held (Deliver tok m) = [m]"
| "held (WaitNext m) = [m]"
| "held _ = []"

definition in_flight :: "('c \<Rightarrow> message list) \<Rightarrow> nat \<Rightarrow> ('t, 'c, 'd, 'o) world \<Rightarrow> message list" where
  "in_flight queue t w = (case tasks w t of None \<Rightarrow> [] | Some k \<Rightarrow>
     held (task_pc k) @ (case chans w (task_main k) of None \<Rightarrow> [] | Some c \<Rightarrow> queue c))"

fun emitted :: "dispatcher_label \<Rightarrow> message list" where
  "emitted (Delivered tok m) = [m]"
| "emitted (Dropped m) = [m]"
| "emitted _ = []"

definition group_running :: "('c \<Rightarrow> bool) \<Rightarrow> nat \<Rightarrow> nat \<Rightarrow> ('t, 'c, 'd, 'o) world \<Rightarrow> bool" where
  "group_running rx main t w \<longleftrightarrow>
     (\<exists>k c. tasks w t = Some k \<and> task_main k = main \<and> chans w main = Some c \<and> rx c)"

text \<open>
  Runs of a group: publishers put messages into its queue, its dispatcher takes steps, and the rest
  of the process does anything that leaves the queue and the task alone. The two lists are the
  messages accepted and the messages handed to consumers.
\<close>

inductive lb_run ::
    "('t, 'c, 'd, 'o) deps \<Rightarrow> nat \<Rightarrow> nat \<Rightarrow> ('t, 'c, 'd, 'o) world \<Rightarrow>
     message list \<Rightarrow> message list \<Rightarrow> ('t, 'c, 'd, 'o) world \<Rightarrow> bool" for E main t where
  run_start: "lb_run E main t w [] [] w"
| run_accept: "lb_run E main t w i out w1 \<Longrightarrow> chan_send E main m w1 = Ready (Inr w2) \<Longrightarrow>
    lb_run E main t w (i @ [m]) out w2"
| run_silent: "lb_run E main t w i out w1 \<Longrightarrow> dispatcher_step E alive t w1 = Some (Silent, w2) \<Longrightarrow>
    lb_run E main t w i out w2"
| run_deliver: "lb_run E main t w i out w1 \<Longrightarrow> dispatcher_step E alive t w1 = Some (Delivered tok m, w2) \<Longrightarrow>
    lb_run E main t w i (out @ [m]) w2"
| run_other: "lb_run E main t w i out w1 \<Longrightarrow> tasks w2 t = tasks w1 t \<Longrightarrow> chans w2 main = chans w1 main \<Longrightarrow>
    lb_run E main t w i out w2"

context env
begin

lemma task_recv_message_cases:
  assumes "chans w (task_main k) = Some c" and "rx c"
  obtains (item) m c' where "queue c = m # queue c'" "rx c'"
      "task_recv_message E k w = Ready (Some (m, w\<lparr>chans := (chans w)(task_main k \<mapsto> c')\<rparr>))"
  | (wait) "task_recv_message E k w = Pending"
  | (finish) "queue c = []" "txs c = 0" "task_recv_message E k w = Ready None"
  using assms by (cases rule: msgs.receiver_recv_cases [OF assms(2)]) (auto simp: task_recv_message_def)

lemma task_recv_request_frame:
  assumes "task_recv_request E k w = Ready (Some (tok, w'))"
  shows "chans w' = chans w" "tasks w' = tasks w" "inner w' = inner w"
  using assms by (auto simp: task_recv_request_def split: option.splits poll.splits)

lemma reply_send_frame:
  "reply_send E tok m w = Inr w' \<Longrightarrow> chans w' = chans w \<and> tasks w' = tasks w \<and> inner w' = inner w"
  by (auto simp: reply_send_def split: option.splits sum.splits)

lemma reply_send_back: "reply_send E tok m w = Inl m' \<Longrightarrow> m' = m"
  using cells.os_send_back by (auto simp: reply_send_def split: option.splits sum.splits)

lemma dispatcher_step_conserves:
  assumes run: "group_running rx main t w" and st: "dispatcher_step E alive t w = Some (l, w')"
    and l: "l \<noteq> Ended"
  shows "in_flight queue t w = emitted l @ in_flight queue t w' \<and> group_running rx main t w'"
proof -
  obtain k c where k: "tasks w t = Some k" "task_main k = main" "chans w main = Some c" "rx c"
    using run by (auto simp: group_running_def)
  show ?thesis
  proof (cases "task_pc k")
    case WaitRequest
    with st l k show ?thesis
      by (auto simp: dispatcher_step_def in_flight_def group_running_def frame_simps task_recv_request_frame
          split: poll.splits option.splits)
  next
    case (WaitMessage tok)
    have c: "chans w (task_main k) = Some c" using k by simp
    show ?thesis
      by (cases rule: task_recv_message_cases [OF c k(4)])
        (use st l k WaitMessage in
          \<open>auto simp: dispatcher_step_def in_flight_def group_running_def frame_simps\<close>)
  next
    case (Deliver tok m)
    with st k show ?thesis
      by (auto simp: dispatcher_step_def in_flight_def group_running_def frame_simps
          dest: reply_send_frame reply_send_back split: sum.splits)
  next
    case (WaitNext m)
    with st k show ?thesis
      by (auto simp: dispatcher_step_def in_flight_def group_running_def frame_simps task_recv_request_frame
          split: poll.splits option.splits)
  qed (use st k in \<open>auto simp: dispatcher_step_def\<close>)
qed

lemma chan_send_in_flight:
  assumes run: "group_running rx main t w" and st: "chan_send E main m w = Ready (Inr w')"
  shows "in_flight queue t w' = in_flight queue t w @ [m] \<and> group_running rx main t w'"
proof -
  obtain k c where k: "tasks w t = Some k" "task_main k = main" "chans w main = Some c" "rx c"
    using run by (auto simp: group_running_def)
  show ?thesis
    by (cases rule: chan_send_cases [OF k(3,4), of m])
      (use st k in \<open>auto simp: in_flight_def group_running_def\<close>)
qed

lemma lb_run_conserves:
  assumes "lb_run E main t w i out w'" and "group_running rx main t w"
  shows "in_flight queue t w @ i = out @ in_flight queue t w' \<and> group_running rx main t w'"
  using assms
proof (induction rule: lb_run.induct)
  case (run_accept w i out w1 m w2)
  then show ?case using chan_send_in_flight by (metis append_assoc)
next
  case (run_silent w i out w1 alive w2)
  then show ?case using dispatcher_step_conserves [of main t w1 alive Silent w2] by simp
next
  case (run_deliver w i out w1 alive tok m w2)
  then show ?case using dispatcher_step_conserves [of main t w1 alive "Delivered tok m" w2] by simp
next
  case (run_other w i out w1 w2)
  then show ?case by (auto simp: in_flight_def group_running_def)
qed simp

end

section \<open>Properties\<close>

text \<open>
  C10. A load-balanced group loses and duplicates nothing and keeps the order: along any run in
  which the dispatcher is not aborted and drops nothing, the messages it held and had queued
  followed by those accepted are the messages handed to consumers followed by those still held
  or queued.
\<close>

theorem dispatcher_fifo:
  assumes "env E queue cap txs rx rqueue rcap rtxs rrx cstate" and "group_running rx main t w"
    and "lb_run E main t w accepted handed w'"
  shows "in_flight queue t w @ accepted = handed @ in_flight queue t w'"
  using env.lb_run_conserves [OF assms(1,3,2)] by simp

text \<open>
  A delivery is real and a vanished consumer costs no message: when the dispatcher is about to
  hand a message to a consumer that still waits, the consumer's cell receives exactly that
  message; when the consumer is gone, the dispatcher keeps the message, and the next consumer
  that asks is the one it is handed to.
\<close>

theorem dispatcher_delivery:
  assumes "env E queue cap txs rx rqueue rcap rtxs rrx cstate"
    and "tasks w t = Some k" and "task_pc k = Deliver tok m" and "oneshots w tok = Some s"
  shows "(cstate s = OsWait \<longrightarrow> (\<exists>w' s'. dispatcher_step E alive t w = Some (Delivered tok m, w') \<and>
      oneshots w' tok = Some s' \<and> cstate s' = OsFull m)) \<and>
    (cstate s = OsRxGone \<longrightarrow> dispatcher_step E alive t w = Some (Silent, set_pc t (WaitNext m) w) \<and>
      (\<forall>d next rest. reqs w (task_req k) = Some d \<and> rrx d \<and> rqueue d = next # rest \<longrightarrow>
        (\<exists>w'. dispatcher_step E alive t (set_pc t (WaitNext m) w) = Some (Silent, w') \<and>
          (\<exists>k'. tasks w' t = Some k' \<and> task_pc k' = Deliver next m))))"
proof (intro conjI impI allI)
  assume "cstate s = OsWait"
  then obtain s' where "os_send (d_oneshots E) m s = Inr s'" "cstate s' = OsFull m"
    using oneshot.os_send_ok [OF env.axioms(3) [OF assms(1)], of s m] by blast
  then show "\<exists>w' s'. dispatcher_step E alive t w = Some (Delivered tok m, w') \<and>
      oneshots w' tok = Some s' \<and> cstate s' = OsFull m"
    using assms by (simp add: dispatcher_step_def reply_send_def frame_simps)
next
  assume "cstate s = OsRxGone"
  then have "os_send (d_oneshots E) m s = Inl m"
    using oneshot.os_send_gone [OF env.axioms(3) [OF assms(1)], of s m] by blast
  then show "dispatcher_step E alive t w = Some (Silent, set_pc t (WaitNext m) w)"
    using assms by (simp add: dispatcher_step_def reply_send_def)
next
  fix d "next" rest
  assume d: "reqs w (task_req k) = Some d \<and> rrx d \<and> rqueue d = next # rest"
  then obtain d' where "receiver_recv (d_reqs E) d = Ready (Some (next, d'))"
    using mpsc.mp_recv_item [OF env.axioms(2) [OF assms(1)], of d "next" rest] by (auto simp: receiver_recv_def)
  then show "\<exists>w'. dispatcher_step E alive t (set_pc t (WaitNext m) w) = Some (Silent, w') \<and>
      (\<exists>k'. tasks w' t = Some k' \<and> task_pc k' = Deliver next m)"
    using assms d by (simp add: dispatcher_step_def task_recv_request_def frame_simps)
qed

lemma step_Ended:
  assumes "tasks w t = Some k" and "dispatcher_step E alive t w = Some (Ended, w')"
  obtains w0 where "inner w0 = inner w" "groups w0 = groups w" "slots w0 = slots w"
    "w' = dispatcher_finish E alive t k w0"
proof (cases "task_pc k")
  case WaitRequest
  with assms that [of w] show thesis
    by (auto simp: dispatcher_step_def split: poll.splits option.splits)
next
  case (WaitMessage tok)
  with assms that [of "oneshot_drop_tx E tok w"] show thesis
    by (auto simp: dispatcher_step_def frame_simps split: poll.splits option.splits)
qed (use assms in \<open>auto simp: dispatcher_step_def split: poll.splits option.splits sum.splits\<close>)

text \<open>
  C24. A dispatcher that ends by itself cleans up: when it stops because its consumers or its
  queue are gone and the registry is alive, the address it serves is unregistered, no other route
  changes, and the group's target is closed.
\<close>

theorem dispatcher_end_unregisters:
  assumes "env E queue cap txs rx rqueue rcap rtxs rrx cstate" and "registry_reachable E w"
    and "tasks w t = Some k" and "dispatcher_step E True t w = Some (Ended, w')"
    and "routes E w (task_address k) = Some target" and "target_slot w target = task_slot k"
  shows "routes E w' = (routes E w)(task_address k := None) \<and>
    target_send E target m w' = Ready (Inl ConnectionClosed)"
proof -
  obtain w0 where w0: "inner w0 = inner w" "groups w0 = groups w" "w' = dispatcher_finish E True t k w0"
    using step_Ended [OF assms(3,4)] by metis
  let ?w1 = "mark_removed E (task_slot k) w0"
  let ?w2 = "snd (unregister E (task_address k) (task_slot k) ?w1)"
  have f: "find_route (d_radix E) (task_address k) (inner ?w1) = Some target"
    using assms(5) w0 by (simp add: routes_def frame_simps)
  have ts: "target_slot ?w1 target = task_slot k"
    using assms(6) w0(2) by (simp add: target_slot_def frame_simps split: route_target.splits)
  have i: "inner w' = inner ?w2" "slots w' = slots ?w2" "groups w' = groups ?w2"
    using w0 by (simp_all add: dispatcher_finish_def frame_simps)
  have "registry_ok (d_radix E) (inner w)" using assms(1,2) env.axioms(4) registry_reachable_ok by blast
  then have "routes E w' = (routes E w)(task_address k := None)"
    using route_radix.find_route_delete [OF env.axioms(4) [OF assms(1)]] unregister_hit [OF f ts] i(1) w0(1)
    by (auto simp: routes_def frame_simps fun_eq_iff)
  moreover have "target_slot w' target = task_slot k"
    using unregister_hit_closes(2) [OF f ts, of target] ts i(3) by (simp add: target_slot_def split: route_target.splits)
  then have "slot_sender (slots w' (target_slot w' target)) = None"
    using unregister_hit_closes(1) [OF f ts] i(2) by simp
  then have "target_send E target m w' = Ready (Inl ConnectionClosed)" by (rule target_send_removed)
  ultimately show ?thesis by blast
qed

lemma remove_last_consumer:
  assumes "consumer_count g w = 1"
  shows "inner (remove_consumer E g w) = inner w"
    and "slot_sender (slots (remove_consumer E g w) (grp_slot (groups w g))) = None"
    and "grp_slot (groups (remove_consumer E g w) g) = grp_slot (groups w g)"
  using assms by (simp_all add: remove_consumer_def consumer_count_def Let_def frame_simps)

lemma dispatcher_abort_frame:
  assumes "dispatcher_abort E t w = Some w'"
  shows "inner w' = inner w" "slots w' = slots w" "groups w' = groups w"
    and "dispatcher_step E alive t w' = None"
  using assms
  by (auto simp: dispatcher_abort_def dispatcher_step_def frame_simps split: option.splits if_splits
      dispatcher_pc.splits)

text \<open>
  C25. The last consumer of a load-balanced address leaves a dead route behind: when its handle is
  dropped the group shuts down, the dispatcher is aborted and will never run the code that
  unregisters; the address stays registered, every send to it reports a closed connection, and
  a new load-balanced subscription is given the dead group again.
\<close>

theorem last_consumer_leaves_dead_route:
  assumes "env E queue cap txs rx rqueue rcap rtxs rrx cstate" and "registry_reachable E w"
    and "routes E w a = Some (LoadBalanced g)" and "consumer_count g w = 1"
    and "dispatcher_abort E t (remove_consumer E g w) = Some w'"
  shows "routes E w' = routes E w \<and> dispatcher_step E alive t w' = None \<and>
    target_send E (LoadBalanced g) m w' = Ready (Inl ConnectionClosed) \<and>
    get_existing_or_register E a factory w' = Some (Inr (AlreadyExists (LoadBalanced g)), w')"
proof -
  note ab = dispatcher_abort_frame [OF assms(5)] and rem = remove_last_consumer [OF assms(4), of E]
  have i: "inner w' = inner w" using ab(1) rem(1) by simp
  have ok: "registry_ok (d_radix E) (inner w)" using assms(1,2) env.axioms(4) registry_reachable_ok by blast
  have f: "find_route (d_radix E) a (inner w') = Some (LoadBalanced g)"
    using assms(3) i by (simp add: routes_def)
  have "is_wildcard a \<longrightarrow> pattern_spec a"
    using route_radix.found_key_ok [OF env.axioms(4) [OF assms(1)] ok] assms(3) by (simp add: routes_def)
  then have "check_address_free (d_radix E) (inner w') a = Inr (Duplicate (LoadBalanced g))"
    using route_radix.duplicate_find_route [OF env.axioms(4) [OF assms(1)]] f by blast
  moreover have "slot_sender (slots w' (target_slot w' (LoadBalanced g))) = None"
    using ab rem by (simp add: target_slot_def)
  ultimately show ?thesis
    using i ab(4) target_send_removed by (simp add: routes_def get_existing_or_register_def fun_eq_iff)
qed

section \<open>Witnesses\<close>

text \<open>A process with one load-balanced subscription to \<open>a:b\<close>, one message queued.\<close>

definition w_group :: std_world where
  "w_group = snd (group_subscribe 3
     (snd (the (get_existing_or_register std_deps (ascii ''a:b'') (lb_factory std_deps 4 (ascii ''a:b'')) w_empty))))"

definition lb_task :: task where
  "lb_task = \<lparr>task_pc = WaitRequest, task_abort = False, task_main = 0, task_req = 2,
     task_slot = 1, task_address = ascii ''a:b''\<rparr>"

lemmas lb_eval = get_existing_or_register_def lb_factory_def create_channel_def create_request_channel_def
  chan_alloc_def slot_new_def fresh_def new_load_balanced_def group_new_def group_subscribe_def

lemma w_group_eval:
  "get_existing_or_register std_deps (ascii ''a:b'') (lb_factory std_deps 4 (ascii ''a:b'')) w_empty =
     Some (Inr (Registered (LoadBalanced 3)),
       snd (the (get_existing_or_register std_deps (ascii ''a:b'') (lb_factory std_deps 4 (ascii ''a:b'')) w_empty)))"
  "tasks w_group 4 = Some lb_task"
  "chans w_group 0 = Some \<lparr>bq_items = [], bq_cap = 4, bq_txs = 1, bq_rx = True\<rparr>"
  "reqs w_group 2 = Some \<lparr>bq_items = [], bq_cap = 1000, bq_txs = 1, bq_rx = True\<rparr>"
  "routes std_deps w_group (ascii ''a:b'') = Some (LoadBalanced 3)"
  "groups w_group 3 = \<lparr>grp_slot = 1, grp_handle = Some 4, grp_version = 1, grp_req = 2,
     grp_req_count = 2, grp_address = ascii ''a:b'', grp_consumers = 1\<rparr>"
  by (simp_all add: w_group_def lb_eval registry_eval bq_ops_def MAX_PERMITS_def lb_task_def
      routes_def find_route_def)

lemma w_group_reachable: "registry_reachable std_deps w_group"
proof -
  let ?w1 = "snd (the (get_existing_or_register std_deps (ascii ''a:b'') (lb_factory std_deps 4 (ascii ''a:b'')) w_empty))"
  have u: "is_utf8 (ascii ''a:b'')" by simp
  have "registry_reachable std_deps ?w1"
    using reach_step [OF w_empty_reachable step_get_or_register [OF u lb_factory_frame w_group_eval(1)]] .
  moreover have "inner w_group = inner ?w1" by (simp add: w_group_def group_subscribe_def)
  ultimately show ?thesis using reach_step step_other by blast
qed

theorem dispatcher_fifo_witness:
  "\<exists>w'. chan_send std_deps 0 sample_message w_group = Ready (Inr w') \<and>
     in_flight bq_items 4 w' = [sample_message]"
proof -
  have run: "group_running bq_rx 0 4 w_group"
    by (simp add: group_running_def w_group_eval lb_task_def)
  obtain w' where w': "chan_send std_deps 0 sample_message w_group = Ready (Inr w')"
    by (rule std.chan_send_cases [OF w_group_eval(3), of sample_message]) auto
  then have "lb_run std_deps 0 4 w_group ([] @ [sample_message]) [] w'"
    by (intro run_accept [OF run_start])
  then have "in_flight bq_items 4 w_group @ [sample_message] = [] @ in_flight bq_items 4 w'"
    using dispatcher_fifo [OF std.env_axioms run] by simp
  with w' show ?thesis by (simp add: in_flight_def w_group_eval lb_task_def)
qed

theorem dispatcher_delivery_witness:
  "\<exists>w' s'. dispatcher_step std_deps True 4 (set_pc 4 (Deliver 9 sample_message)
       (w_group\<lparr>oneshots := [9 \<mapsto> OsWait]\<rparr>)) = Some (Delivered 9 sample_message, w') \<and>
     oneshots w' 9 = Some s' \<and> s' = OsFull sample_message"
  using dispatcher_delivery [OF std.env_axioms,
      of "set_pc 4 (Deliver 9 sample_message) (w_group\<lparr>oneshots := [9 \<mapsto> OsWait]\<rparr>)" 4
        "lb_task\<lparr>task_pc := Deliver 9 sample_message\<rparr>" 9 sample_message OsWait True]
  by (simp add: frame_simps w_group_eval)

text \<open>The same process after its request sender is gone: the dispatcher ends.\<close>

definition w_ending :: std_world where
  "w_ending = w_group\<lparr>reqs := [2 \<mapsto> \<lparr>bq_items = [], bq_cap = 1000, bq_txs = 0, bq_rx = True\<rparr>]\<rparr>"

theorem dispatcher_end_unregisters_witness:
  "\<exists>w'. dispatcher_step std_deps True 4 w_ending = Some (Ended, w') \<and>
     routes std_deps w' = (routes std_deps w_ending)(ascii ''a:b'' := None)"
proof -
  have r: "registry_reachable std_deps w_ending"
    using reach_step [OF w_group_reachable step_other] by (simp add: w_ending_def)
  have t: "tasks w_ending 4 = Some lb_task" using w_group_eval by (simp add: w_ending_def)
  have s: "dispatcher_step std_deps True 4 w_ending =
      Some (Ended, dispatcher_finish std_deps True 4 lb_task w_ending)"
    by (simp add: dispatcher_step_def t) (simp add: w_ending_def lb_task_def task_recv_request_def
        receiver_recv_def std_deps_def bq_ops_def)
  have f: "routes std_deps w_ending (task_address lb_task) = Some (LoadBalanced 3)"
    using w_group_eval(5) by (simp add: routes_def w_ending_def lb_task_def)
  have sl: "target_slot w_ending (LoadBalanced 3) = task_slot lb_task"
    using w_group_eval(6) by (simp add: target_slot_def w_ending_def lb_task_def)
  show ?thesis
    using dispatcher_end_unregisters [OF std.env_axioms r t s f sl] s by (simp add: lb_task_def)
qed

theorem last_consumer_leaves_dead_route_witness:
  "\<exists>w'. dispatcher_abort std_deps 4 (remove_consumer std_deps 3 w_group) = Some w' \<and>
     routes std_deps w' (ascii ''a:b'') = Some (LoadBalanced 3) \<and>
     target_send std_deps (LoadBalanced 3) sample_message w' = Ready (Inl ConnectionClosed)"
proof -
  have c: "consumer_count 3 w_group = 1" by (simp add: consumer_count_def w_group_eval)
  have "tasks (remove_consumer std_deps 3 w_group) 4 = Some (lb_task\<lparr>task_abort := True\<rparr>)"
    by (simp add: remove_consumer_def group_shutdown_def take_handle_def task_request_abort_def
        mark_removed_def frame_simps w_group_eval Let_def)
  then obtain w' where "dispatcher_abort std_deps 4 (remove_consumer std_deps 3 w_group) = Some w'"
    by (simp add: dispatcher_abort_def lb_task_def)
  with last_consumer_leaves_dead_route [OF std.env_axioms w_group_reachable w_group_eval(5) c this]
  show ?thesis using w_group_eval(5) by simp
qed

end
