(* ===== verification/Transport.thy ===== *)
theory Transport
  imports Dispatcher
begin

text \<open>
  \<^verbatim>\<open>transport/mod.rs\<close> and \<^verbatim>\<open>transport/in_memory.rs\<close>. The traits \<^verbatim>\<open>Transport<E>\<close> and
  \<^verbatim>\<open>Endpoint\<close> are a record of operations over any state and any endpoint, with the provided
  methods \<^verbatim>\<open>send\<close> and \<^verbatim>\<open>request\<close> defined on the record; \<open>in_memory\<close> is the implementation by the
  registry. The locale \<open>transport\<close> states what a caching client relies on: an endpoint that is still
  valid is the one a fresh resolution would give. The in-memory transport is shown to keep that
  promise, the version counters being 64 bits wide.
\<close>

section \<open>The traits\<close>

record ('w, 'e, 'p) transport_ops =
  tr_resolve :: "bytes \<Rightarrow> 'w \<Rightarrow> transport_error + 'e"
  tr_send_to :: "'e \<Rightarrow> message \<Rightarrow> 'w \<Rightarrow> (transport_error + 'w) poll"
  tr_suspended :: "'e \<Rightarrow> 'w \<Rightarrow> 'p option"
  tr_resume :: "'p \<Rightarrow> message \<Rightarrow> 'w \<Rightarrow> (transport_error + 'w) poll"
  tr_request_to :: "'e \<Rightarrow> message \<Rightarrow> 'w \<Rightarrow> (transport_error + message) poll"
  tr_receive :: "'w \<Rightarrow> transport_error + message"
  tr_close :: "'w \<Rightarrow> transport_error + unit"
  tr_is_valid :: "'e \<Rightarrow> 'w \<Rightarrow> bool"

definition transport_send ::
    "('w, 'e, 'p) transport_ops \<Rightarrow> message \<Rightarrow> 'w \<Rightarrow> (transport_error + 'w) poll" where
  "transport_send T m w = (case from_utf8 (address m) of
     None \<Rightarrow> Ready (Inl (TProtocol InvalidAddressUtf8))
   | Some addr \<Rightarrow> (case tr_resolve T addr w of
       Inl e \<Rightarrow> Ready (Inl e)
     | Inr ep \<Rightarrow> tr_send_to T ep m w))"

definition transport_request ::
    "('w, 'e, 'p) transport_ops \<Rightarrow> message \<Rightarrow> 'w \<Rightarrow> (transport_error + message) poll" where
  "transport_request T m w = (case from_utf8 (address m) of
     None \<Rightarrow> Ready (Inl (TProtocol InvalidAddressUtf8))
   | Some addr \<Rightarrow> (case tr_resolve T addr w of
       Inl e \<Rightarrow> Ready (Inl e)
     | Inr ep \<Rightarrow> tr_request_to T ep m w))"

section \<open>The in-memory transport\<close>

record endpoint =
  ep_target :: route_target
  ep_version :: u64

definition endpoint_new :: "route_target \<Rightarrow> ('t, 'c, 'd, 'o) world \<Rightarrow> endpoint" where
  "endpoint_new t w = \<lparr>ep_target = t, ep_version = target_version t w\<rparr>"

definition endpoint_send ::
    "('t, 'c, 'd, 'o) deps \<Rightarrow> endpoint \<Rightarrow> message \<Rightarrow> ('t, 'c, 'd, 'o) world \<Rightarrow>
     (transport_error + ('t, 'c, 'd, 'o) world) poll" where
  "endpoint_send E ep m w = target_send E (ep_target ep) m w"

text \<open>
  A send that is pending has loaded the sender of the slot and stays on that channel, whatever
  happens to the slot: the channel it holds, and a later poll of it.
\<close>

definition endpoint_suspended :: "endpoint \<Rightarrow> ('t, 'c, 'd, 'o) world \<Rightarrow> nat option" where
  "endpoint_suspended ep w = slot_sender (slots w (target_slot w (ep_target ep)))"

definition send_resume ::
    "('t, 'c, 'd, 'o) deps \<Rightarrow> nat \<Rightarrow> message \<Rightarrow> ('t, 'c, 'd, 'o) world \<Rightarrow>
     (transport_error + ('t, 'c, 'd, 'o) world) poll" where
  "send_resume E ch m w = (case chan_send E ch m w of
     Pending \<Rightarrow> Pending
   | Ready (Inl _) \<Rightarrow> Ready (Inl ConnectionClosed)
   | Ready (Inr w') \<Rightarrow> Ready (Inr w'))"

definition endpoint_is_valid ::
    "('t, 'c, 'd, 'o) deps \<Rightarrow> endpoint \<Rightarrow> ('t, 'c, 'd, 'o) world \<Rightarrow> bool" where
  "endpoint_is_valid E ep w \<longleftrightarrow>
     target_version (ep_target ep) w = ep_version ep \<and> \<not> target_is_closed E (ep_target ep) w"

definition resolve ::
    "('t, 'c, 'd, 'o) deps \<Rightarrow> bytes \<Rightarrow> ('t, 'c, 'd, 'o) world \<Rightarrow> transport_error + endpoint" where
  "resolve E addr w = (case lookup E addr w of
     Some t \<Rightarrow> Inr (endpoint_new t w)
   | None \<Rightarrow> Inl (RecipientNotFound addr))"

definition in_memory ::
    "('t, 'c, 'd, 'o) deps \<Rightarrow> (('t, 'c, 'd, 'o) world, endpoint, nat) transport_ops" where
  "in_memory E = \<lparr>
     tr_resolve = resolve E,
     tr_send_to = endpoint_send E,
     tr_suspended = endpoint_suspended,
     tr_resume = send_resume E,
     tr_request_to = (\<lambda>_ _ _. Ready (Inl Unsupported)),
     tr_receive = (\<lambda>_. Inl ConnectionClosed),
     tr_close = (\<lambda>_. Inr ()),
     tr_is_valid = endpoint_is_valid E\<rparr>"

lemma in_memory_simps [simp]:
  "tr_resolve (in_memory E) = resolve E" "tr_send_to (in_memory E) = endpoint_send E"
  "tr_is_valid (in_memory E) = endpoint_is_valid E"
  "tr_request_to (in_memory E) ep m w = Ready (Inl Unsupported)"
  "tr_suspended (in_memory E) = endpoint_suspended" "tr_resume (in_memory E) = send_resume E"
  by (simp_all add: in_memory_def)

section \<open>Endpoints that stay valid\<close>

text \<open>
  A history of the process as a cached endpoint for target \<open>t\<close> sees it, with the number of times the
  target's version has been incremented: registrations, which change no version of an existing
  target, deregistrations, and anything else the process does, which leaves the registry alone
  and may increment the version any number of times.
\<close>

inductive version_run ::
    "('t, 'c, 'd, 'o) deps \<Rightarrow> route_target \<Rightarrow> nat \<Rightarrow> ('t, 'c, 'd, 'o) world \<Rightarrow> ('t, 'c, 'd, 'o) world \<Rightarrow> bool"
    for E t where
  version_start: "version_run E t 0 w w"
| version_register: "version_run E t d w0 w \<Longrightarrow> is_utf8 a \<Longrightarrow> register E a u w = (r, w') \<Longrightarrow>
    version_run E t d w0 w'"
| version_get_or_register: "version_run E t d w0 w \<Longrightarrow> is_utf8 a \<Longrightarrow> factory_frame factory \<Longrightarrow>
    get_existing_or_register E a factory w = Some (r, w') \<Longrightarrow> target_version t w' = target_version t w \<Longrightarrow>
    version_run E t d w0 w'"
| version_unregister: "version_run E t d w0 w \<Longrightarrow> unregister E a s w = (r, w') \<Longrightarrow>
    version_run E t (if target_version t w' = target_version t w then d else Suc d) w0 w'"
| version_other: "version_run E t d w0 w \<Longrightarrow> inner w' = inner w \<Longrightarrow>
    target_version t w' = target_version t w + of_nat b \<Longrightarrow> version_run E t (d + b) w0 w'"

lemma target_version_inner [simp]: "target_version t (w\<lparr>inner := i\<rparr>) = target_version t w"
  by (simp add: target_version_def group_version_def split: route_target.split)

lemma register_version: "register E a u w = (r, w') \<Longrightarrow> target_version t w' = target_version t w"
  by (auto simp: register_def split: sum.splits lookup_result.splits)

lemma group_shutdown_other:
  "h \<noteq> g \<Longrightarrow> grp_version (groups (group_shutdown E g w) h) = grp_version (groups w h)"
  by (simp add: group_shutdown_def frame_simps Let_def)

lemma group_shutdown_slot_version:
  "slot_version (slots (group_shutdown E g w) s) =
     (if s = grp_slot (groups w g) then slot_version (slots w s) + 1 else slot_version (slots w s))"
  by (simp add: group_shutdown_def frame_simps Let_def)

lemma remove_slot_version:
  "target_version t (snd (remove_slot E u s w)) = target_version t w \<or>
   target_version t (snd (remove_slot E u s w)) = target_version t w + 1"
  by (cases t; cases u)
    (auto simp: target_version_def group_version_def remove_slot_def frame_simps
      group_shutdown_slot_version group_shutdown_other, metis group_shutdown_other group_shutdown_version)

lemma unregister_version:
  assumes "unregister E a s w = (r, w')"
  shows "target_version t w' = target_version t w \<or> target_version t w' = target_version t w + 1"
proof (cases "find_route (d_radix E) a (inner w)")
  case None
  then show ?thesis using assms by (simp add: unregister_def)
next
  case (Some u)
  have "w' = snd (remove_slot E u s w) \<or>
      w' = (snd (remove_slot E u s w))\<lparr>inner := delete_route (d_radix E) a (inner w)\<rparr>"
    using assms Some by (auto simp: unregister_def split_beta Let_def split: if_splits)
  then show ?thesis using remove_slot_version [of t E u s w] by auto
qed

context env
begin

lemma routes_register:
  assumes "registry_ok (d_radix E) (inner w)" and "register E a u w = (r, w')" and "routes E w k = Some t"
  shows "routes E w' k = Some t"
proof -
  have i: "inner w' = (if check_address_free (d_radix E) (inner w) a = Inr NotFound
      then insert_route (d_radix E) a u (inner w) else inner w)"
    using register_inner [of E a u w] assms(2) by simp
  show ?thesis
  proof (cases "check_address_free (d_radix E) (inner w) a = Inr NotFound")
    case True
    have "find_route (d_radix E) a (inner w) = None" using tree.check_free_find_route [OF True] .
    then show ?thesis
      using tree.find_route_insert [OF assms(1) True, of k u] assms(3) i True by (auto simp: routes_def)
  qed (use assms(3) i in \<open>simp add: routes_def\<close>)
qed

lemma routes_get_or_register:
  assumes "registry_ok (d_radix E) (inner w)" and "factory_frame factory"
    and "get_existing_or_register E a factory w = Some (r, w')" and "routes E w k = Some t"
  shows "routes E w' k = Some t"
proof -
  consider "inner w' = inner w"
    | u where "check_address_free (d_radix E) (inner w) a = Inr NotFound"
        "inner w' = insert_route (d_radix E) a u (inner w)"
    using get_or_register_inner [OF assms(2,3)] by blast
  then show ?thesis
  proof cases
    case (2 u)
    have "find_route (d_radix E) a (inner w) = None" using tree.check_free_find_route [OF 2(1)] .
    then show ?thesis
      using tree.find_route_insert [OF assms(1) 2(1), of k u] assms(4) 2(2) by (auto simp: routes_def)
  qed (use assms(4) in \<open>simp add: routes_def\<close>)
qed

text \<open>A deregistration that takes a target's key away changes the target's version.\<close>

lemma routes_unregister:
  assumes "registry_ok (d_radix E) (inner w)" and "unregister E a s w = (r, w')" and "routes E w k = Some t"
    and "target_version t w' = target_version t w"
  shows "routes E w' k = Some t"
proof (cases "\<exists>u. find_route (d_radix E) a (inner w) = Some u \<and> target_slot w u = s")
  case True
  then obtain u where u: "find_route (d_radix E) a (inner w) = Some u" "target_slot w u = s" by blast
  have w': "w' = (snd (remove_slot E u s w))\<lparr>inner := delete_route (d_radix E) a (inner w)\<rparr>"
    using unregister_hit [OF u] assms(2) by simp
  have "k \<noteq> a"
  proof
    assume "k = a"
    then have "t = u" using assms(3) u(1) by (simp add: routes_def)
    then have "target_version t w' = target_version t w + 1"
      using u(2) w' by (auto simp: remove_slot_def target_slot_def target_version_def group_version_def
          split: route_target.splits)
    with assms(4) show False by simp
  qed
  then show ?thesis
    using tree.find_route_delete [OF assms(1), of k a] assms(3) w' by (simp add: routes_def)
next
  case False
  then have "w' = w"
    using assms(2) remove_slot_miss [of w _ s E] by (auto simp: unregister_def split: option.splits)
  with assms(3) show ?thesis by simp
qed

lemma version_run_reachable:
  assumes "version_run E t d w0 w" and "registry_reachable E w0"
  shows "registry_reachable E w"
  using assms by (induction rule: version_run.induct) (blast intro: reach_step registry_step.intros)+

lemma version_run_count:
  "version_run E t d w0 w \<Longrightarrow> target_version t w = target_version t w0 + of_nat d"
proof (induction rule: version_run.induct)
  case (version_register d w0 w a u r w')
  then show ?case using register_version by metis
next
  case (version_unregister d w0 w a s r w')
  then show ?case using unregister_version [OF version_unregister(2), of t] by auto
qed (simp_all add: algebra_simps)

lemma version_run_routes:
  assumes "version_run E t d w0 w" and "d = 0" and "registry_reachable E w0" and "routes E w0 k = Some t"
  shows "routes E w k = Some t"
  using assms
proof (induction rule: version_run.induct)
  case (version_register d w0 w a u r w')
  then have "registry_ok (d_radix E) (inner w)"
    using version_run_reachable registry_reachable_ok [OF tree.route_radix_axioms] by blast
  then show ?case using version_register routes_register by blast
next
  case (version_get_or_register d w0 w a factory r w')
  then have "registry_ok (d_radix E) (inner w)"
    using version_run_reachable registry_reachable_ok [OF tree.route_radix_axioms] by blast
  then show ?case using version_get_or_register routes_get_or_register by blast
next
  case (version_unregister d w0 w a s r w')
  then have "registry_ok (d_radix E) (inner w)"
    using version_run_reachable registry_reachable_ok [OF tree.route_radix_axioms] by blast
  then show ?case using version_unregister routes_unregister by (auto split: if_splits)
next
  case (version_other d w0 w w' b)
  then show ?case by (simp add: routes_def)
qed simp

lemma lookup_routes:
  "registry_reachable E w \<Longrightarrow> concrete a \<Longrightarrow>
   lookup E a w = Some t \<longleftrightarrow> (\<exists>k. routes E w k = Some t \<and> covers k a)"
  using tree.lookup_covers registry_reachable_ok [OF tree.route_radix_axioms]
  by (simp add: lookup_def routes_def)

lemma valid_endpoint_current:
  assumes "registry_reachable E w0" and "concrete a" and "resolve E a w0 = Inr ep"
    and "version_run E (ep_target ep) d w0 w" and "d < 2 ^ 64" and "endpoint_is_valid E ep w"
  shows "resolve E a w = Inr ep"
proof -
  let ?t = "ep_target ep"
  have l: "lookup E a w0 = Some ?t" and v: "ep_version ep = target_version ?t w0"
    using assms(3) by (auto simp: resolve_def endpoint_new_def split: option.splits)
  have "target_version ?t w = ep_version ep" using assms(6) by (simp add: endpoint_is_valid_def)
  then have "(of_nat d :: u64) = 0" using version_run_count [OF assms(4)] v by simp
  then have "2 ^ 64 dvd d" by (simp add: word_of_nat_eq_0_iff)
  then have "d = 0" using assms(5) nat_dvd_not_less by (metis gr0I)
  then obtain k where "routes E w k = Some ?t" "covers k a"
    using lookup_routes [OF assms(1,2)] l version_run_routes [OF assms(4) _ assms(1)] by blast
  then have "lookup E a w = Some ?t"
    using lookup_routes [OF version_run_reachable [OF assms(4,1)] assms(2)] by blast
  with v assms(6) show ?thesis
    by (cases ep) (auto simp: resolve_def endpoint_new_def endpoint_is_valid_def)
qed

end

section \<open>The contract of a transport\<close>

text \<open>
  What a client that caches endpoints relies on; \<open>good a w\<close> restricts the addresses and states, and
  \<open>later a ep w0 w\<close> says that \<open>w\<close> is a later state of the system in which an endpoint resolved for
  \<open>a\<close> at \<open>w0\<close> may still be in use.
\<close>

locale transport =
  fixes T :: "('w, 'e, 'p) transport_ops" 
    and good :: "bytes \<Rightarrow> 'w \<Rightarrow> bool" and later :: "bytes \<Rightarrow> 'e \<Rightarrow> 'w \<Rightarrow> 'w \<Rightarrow> bool"
  assumes resolved_now: "tr_resolve T a w = Inr ep \<Longrightarrow> good a w \<Longrightarrow> later a ep w w"
    and valid_current: "tr_resolve T a w0 = Inr ep \<Longrightarrow> later a ep w0 w \<Longrightarrow> tr_is_valid T ep w \<Longrightarrow>
    tr_resolve T a w = Inr ep"

definition good_address :: "('t, 'c, 'd, 'o) deps \<Rightarrow> bytes \<Rightarrow> ('t, 'c, 'd, 'o) world \<Rightarrow> bool" where
  "good_address E a w \<longleftrightarrow> registry_reachable E w \<and> concrete a"

definition later_state ::
    "('t, 'c, 'd, 'o) deps \<Rightarrow> bytes \<Rightarrow> endpoint \<Rightarrow> ('t, 'c, 'd, 'o) world \<Rightarrow> ('t, 'c, 'd, 'o) world \<Rightarrow> bool" where
  "later_state E a ep w0 w \<longleftrightarrow> registry_reachable E w0 \<and> concrete a \<and>
     (\<exists>d < 2 ^ 64. version_run E (ep_target ep) d w0 w)"

sublocale env \<subseteq> local_net: transport "in_memory E" "good_address E" "later_state E"
proof unfold_locales
  fix a ep w
  assume "tr_resolve (in_memory E) a w = Inr ep" and "good_address E a w"
  moreover have "version_run E (ep_target ep) 0 w w" by (rule version_start)
  ultimately show "later_state E a ep w w" by (auto simp: later_state_def good_address_def intro!: exI [of _ 0])
qed (auto simp: later_state_def intro: valid_endpoint_current)

context env
begin

lemmas in_memory_transport = local_net.transport_axioms

end

section \<open>Properties\<close>

text \<open>
  C15. Endpoint caching is sound: as long as the version of its target has been incremented fewer
  than \<open>2 ^ 64\<close> times, an endpoint that still passes its validity check is exactly the endpoint a new
  resolution of the same address would return, whatever was registered and unregistered meanwhile.
\<close>

theorem valid_endpoint_is_current:
  assumes "env E queue cap txs rx rqueue rcap rtxs rrx cstate"
    and "registry_reachable E w0" and "concrete a" and "resolve E a w0 = Inr ep"
    and "version_run E (ep_target ep) d w0 w" and "d < 2 ^ 64" and "endpoint_is_valid E ep w"
  shows "resolve E a w = Inr ep"
  using env.valid_endpoint_current [OF assms] .


text \<open>
  C27. Every outcome of a send: an address that is not UTF-8 is a protocol error; an address no
  subscription receives is \<^verbatim>\<open>RecipientNotFound\<close>; otherwise the one subscription that receives it decides:
  when its sender was removed, or its receiver is gone, the result is \<^verbatim>\<open>ConnectionClosed\<close> and nothing
  changes, a full queue makes the send wait, and a queue with room takes the message at its end.
\<close>

theorem send_outcomes:
  assumes "env E queue cap txs rx rqueue rcap rtxs rrx cstate" and "registry_reachable E w"
    and "concrete (address m)"
  shows "(\<not> is_utf8 (address m) \<longrightarrow>
      transport_send (in_memory E) m w = Ready (Inl (TProtocol InvalidAddressUtf8))) \<and>
    (is_utf8 (address m) \<and> (\<forall>k. covers k (address m) \<longrightarrow> routes E w k = None) \<longrightarrow>
      transport_send (in_memory E) m w = Ready (Inl (RecipientNotFound (address m)))) \<and>
    (\<forall>k t. is_utf8 (address m) \<and> covers k (address m) \<and> routes E w k = Some t \<longrightarrow>
      (case slot_sender (slots w (target_slot w t)) of
         None \<Rightarrow> transport_send (in_memory E) m w = Ready (Inl ConnectionClosed)
       | Some ch \<Rightarrow> \<forall>c. chans w ch = Some c \<longrightarrow>
           (if \<not> rx c then transport_send (in_memory E) m w = Ready (Inl ConnectionClosed)
            else if cap c \<le> length (queue c) then transport_send (in_memory E) m w = Pending
            else \<exists>c'. transport_send (in_memory E) m w = Ready (Inr (w\<lparr>chans := (chans w)(ch \<mapsto> c')\<rparr>)) \<and>
              queue c' = queue c @ [m])))"
proof (intro conjI allI impI)
  show "transport_send (in_memory E) m w = Ready (Inl (TProtocol InvalidAddressUtf8))" if "\<not> is_utf8 (address m)"
    using that by (simp add: transport_send_def from_utf8_def)
next
  assume a: "is_utf8 (address m) \<and> (\<forall>k. covers k (address m) \<longrightarrow> routes E w k = None)"
  then have "lookup E (address m) w = None" using env.lookup_routes [OF assms] by (metis not_None_eq)
  with a show "transport_send (in_memory E) m w = Ready (Inl (RecipientNotFound (address m)))"
    by (simp add: transport_send_def from_utf8_def resolve_def)
next
  fix k t assume a: "is_utf8 (address m) \<and> covers k (address m) \<and> routes E w k = Some t"
  then have "lookup E (address m) w = Some t" using env.lookup_routes [OF assms] by blast
  with a have s: "transport_send (in_memory E) m w = slot_send E (target_slot w t) m w"
    by (simp add: transport_send_def resolve_def endpoint_send_def endpoint_new_def from_utf8_def
        target_send_def target_slot_def split: route_target.split)
  show "case slot_sender (slots w (target_slot w t)) of
         None \<Rightarrow> transport_send (in_memory E) m w = Ready (Inl ConnectionClosed)
       | Some ch \<Rightarrow> \<forall>c. chans w ch = Some c \<longrightarrow>
           (if \<not> rx c then transport_send (in_memory E) m w = Ready (Inl ConnectionClosed)
            else if cap c \<le> length (queue c) then transport_send (in_memory E) m w = Pending
            else \<exists>c'. transport_send (in_memory E) m w = Ready (Inr (w\<lparr>chans := (chans w)(ch \<mapsto> c')\<rparr>)) \<and>
              queue c' = queue c @ [m])"
  proof (cases "slot_sender (slots w (target_slot w t))")
    case None
    then show ?thesis by (simp add: s slot_send_def)
  next
    case (Some ch)
    have "if \<not> rx c then transport_send (in_memory E) m w = Ready (Inl ConnectionClosed)
        else if cap c \<le> length (queue c) then transport_send (in_memory E) m w = Pending
        else \<exists>c'. transport_send (in_memory E) m w = Ready (Inr (w\<lparr>chans := (chans w)(ch \<mapsto> c')\<rparr>)) \<and>
          queue c' = queue c @ [m]" if c: "chans w ch = Some c" for c
    proof (cases "rx c")
      case True
      then show ?thesis
        by (cases rule: env.chan_send_cases [OF assms(1) c, of m]) (auto simp: s slot_send_def Some)
    qed (use env.chan_send_gone [OF assms(1) c] in \<open>simp add: s slot_send_def Some\<close>)
    with Some show ?thesis by simp
  qed
qed

section \<open>Witnesses\<close>

text \<open>A process with one exclusive subscription to \<open>a:b\<close>, with room for two messages.\<close>

definition w_before :: std_world where
  "w_before = snd (slot_new 0 (snd (chan_alloc \<lparr>bq_items = [], bq_cap = 2, bq_txs = 1, bq_rx = True\<rparr> w_empty)))"

definition w_sub :: std_world where
  "w_sub = snd (register std_deps (ascii ''a:b'') (Single 1) w_before)"

definition ab_message :: message where
  "ab_message = sample_message\<lparr>address := ascii ''a:b''\<rparr>"

lemma w_before_inner: "inner w_before = registry_new alist_radix"
  by (simp add: w_before_def slot_new_def chan_alloc_def fresh_def world_new_def std_deps_def)

lemma w_sub_eval:
  "register std_deps (ascii ''a:b'') (Single 1) w_before = (Inr (), w_sub)"
  "routes std_deps w_sub (ascii ''a:b'') = Some (Single 1)"
  "slots w_sub 1 = \<lparr>slot_sender = Some 0, slot_version = 1\<rparr>"
  "chans w_sub 0 = Some \<lparr>bq_items = [], bq_cap = 2, bq_txs = 1, bq_rx = True\<rparr>"
  "lookup std_deps (ascii ''a:b'') w_sub = Some (Single 1)"
  by (simp_all add: w_sub_def w_before_inner registry_eval routes_def find_route_def lookup_def lookup_route_def)
    (simp_all add: w_before_def slot_new_def chan_alloc_def fresh_def world_new_def)

lemma w_sub_reachable: "registry_reachable std_deps w_sub"
proof -
  have "registry_reachable std_deps w_before"
    by (rule reach_new) (simp add: w_before_inner std_deps_def)
  moreover have "is_utf8 (ascii ''a:b'')" by simp
  ultimately show ?thesis using reach_step step_register w_sub_eval(1) by blast
qed

lemma ab_message_simps [simp]: "address ab_message = ascii ''a:b''"
  by (simp add: ab_message_def)

lemma ab_utf8: "is_utf8 (address ab_message)" "concrete (address ab_message)"
  using ab_concrete by simp_all

lemma ab_covers: "covers (ascii ''a:b'') (address ab_message)"
  by (simp add: covers_def is_wildcard_def STAR_def)

theorem valid_endpoint_is_current_witness:
  "resolve std_deps (ascii ''a:b'') (snd (register std_deps (ascii ''a:c'') (Single 5) w_sub)) =
     Inr \<lparr>ep_target = Single 1, ep_version = 1\<rparr>"
proof -
  let ?ep = "\<lparr>ep_target = Single 1, ep_version = 1\<rparr>"
  let ?w = "snd (register std_deps (ascii ''a:c'') (Single 5) w_sub)"
  have r: "resolve std_deps (ascii ''a:b'') w_sub = Inr ?ep"
    using w_sub_eval(3,5) by (simp add: resolve_def endpoint_new_def target_version_def)
  have "is_utf8 (ascii ''a:c'')" by simp
  then have v: "version_run std_deps (ep_target ?ep) 0 w_sub ?w"
    by (rule version_register [OF version_start]) (rule surjective_pairing)
  have sc: "slots ?w = slots w_sub" "chans ?w = chans w_sub"
    by (simp_all add: register_def split: sum.split lookup_result.split)
  then have "endpoint_is_valid std_deps ?ep ?w"
    using w_sub_eval(3,4)
    by (simp add: endpoint_is_valid_def target_version_def target_is_closed_def slot_is_closed_def
        chan_is_closed_def sender_is_closed_def std_deps_def bq_ops_def)
  then show ?thesis
    using valid_endpoint_is_current [OF std.env_axioms w_sub_reachable ab_concrete r v] by simp
qed


theorem send_outcomes_witness:
  "transport_send (in_memory std_deps) ab_message w_empty = Ready (Inl (RecipientNotFound (ascii ''a:b''))) \<and>
   transport_send (in_memory std_deps) ab_message (mark_removed std_deps 1 w_sub) = Ready (Inl ConnectionClosed)"
proof -
  have n: "routes std_deps w_empty k = None" for k
    by (simp add: routes_def find_route_def registry_eval)
  let ?w = "mark_removed std_deps 1 w_sub"
  have r: "registry_reachable std_deps ?w"
    by (rule reach_step [OF w_sub_reachable step_other]) (simp add: frame_simps)
  have t: "routes std_deps ?w (ascii ''a:b'') = Some (Single 1)"
    using w_sub_eval(2) by (simp add: routes_def frame_simps)
  show ?thesis
    using send_outcomes [OF std.env_axioms w_empty_reachable ab_utf8(2)]
      send_outcomes [OF std.env_axioms r ab_utf8(2)] n t ab_utf8(1) ab_covers
    by (force simp: target_slot_def)
qed

end
