(* ===== verification/Replies.thy ===== *)
theory Replies
  imports Transport
begin

text \<open>
  \<^verbatim>\<open>src/client/reply_dispatcher.rs\<close>: the map of waiting requests, its guards and the listener task.
  A critical section under the mutex of the map is one operation; the listener takes a reply from
  its channel in one step and dispatches it in another, so that guards may be created and dropped in
  between. The lemmas show that the waiters stay well formed, that a reply reaches exactly the cell
  of the request with its identifier, and that dropping the dispatcher wakes every request.
\<close>

section \<open>Operations\<close>

definition upd_dispatcher ::
    "nat \<Rightarrow> (reply_dispatcher \<Rightarrow> reply_dispatcher) \<Rightarrow> ('t, 'c, 'd, 'o) world \<Rightarrow> ('t, 'c, 'd, 'o) world" where
  "upd_dispatcher r f w = w\<lparr>dispatchers := (dispatchers w)(r := f (dispatchers w r))\<rparr>"

text \<open>\<^verbatim>\<open>ReplyDispatcher::new\<close>, with the channel of the subscriber its listener owns.\<close>

definition reply_dispatcher_new :: "nat \<Rightarrow> ('t, 'c, 'd, 'o) world \<Rightarrow> nat \<times> ('t, 'c, 'd, 'o) world" where
  "reply_dispatcher_new ch w = (next_id w,
     fresh w\<lparr>dispatchers := (dispatchers w)(next_id w :=
       \<lparr>rd_waiters = [], rd_chan = ch, rd_pc = Listening, rd_abort = False\<rparr>)\<rparr>)"

text \<open>
  \<^verbatim>\<open>WaiterGuard::new\<close> and \<^verbatim>\<open>register_waiter\<close>: a new reply cell under a fresh identifier, unless the
  message identifier is already waited for.
\<close>

definition register_waiter ::
    "('t, 'c, 'd, 'o) deps \<Rightarrow> nat \<Rightarrow> bytes \<Rightarrow> ('t, 'c, 'd, 'o) world \<Rightarrow>
     (registry_error + nat) \<times> ('t, 'c, 'd, 'o) world" where
  "register_waiter E r mid w =
     (if map_of (rd_waiters (dispatchers w r)) mid \<noteq> None then (Inl WaiterAlreadyExists, w)
      else let tok = next_id w in
        (Inr tok,
         upd_dispatcher r (\<lambda>d. d\<lparr>rd_waiters := (mid, tok) # rd_waiters d\<rparr>)
           (fresh w\<lparr>oneshots := (oneshots w)(tok \<mapsto> os_channel (d_oneshots E))\<rparr>)))"

text \<open>\<^verbatim>\<open>remove_waiter\<close> and \<^verbatim>\<open>Drop for WaiterGuard\<close>: the removed sender is dropped.\<close>

definition remove_waiter ::
    "('t, 'c, 'd, 'o) deps \<Rightarrow> nat \<Rightarrow> bytes \<Rightarrow> ('t, 'c, 'd, 'o) world \<Rightarrow> ('t, 'c, 'd, 'o) world" where
  "remove_waiter E r mid w = (case map_of (rd_waiters (dispatchers w r)) mid of
     None \<Rightarrow> w
   | Some tok \<Rightarrow> oneshot_drop_tx E tok
       (upd_dispatcher r (\<lambda>d. d\<lparr>rd_waiters := alist_drop mid (rd_waiters d)\<rparr>) w))"

text \<open>The critical section of the listener: the sender is taken out of the map and used once.\<close>

definition dispatch_reply ::
    "('t, 'c, 'd, 'o) deps \<Rightarrow> nat \<Rightarrow> message \<Rightarrow> ('t, 'c, 'd, 'o) world \<Rightarrow> ('t, 'c, 'd, 'o) world" where
  "dispatch_reply E r m w =
     (let mid = message_id (header m);
          w1 = upd_dispatcher r (\<lambda>d. d\<lparr>rd_waiters := alist_drop mid (rd_waiters d)\<rparr>) w
      in case map_of (rd_waiters (dispatchers w r)) mid of
           None \<Rightarrow> w1
         | Some tok \<Rightarrow> (case reply_send E tok m w1 of Inr w2 \<Rightarrow> w2 | Inl _ \<Rightarrow> w1))"

definition listener_step ::
    "('t, 'c, 'd, 'o) deps \<Rightarrow> nat \<Rightarrow> ('t, 'c, 'd, 'o) world \<Rightarrow> ('t, 'c, 'd, 'o) world option" where
  "listener_step E r w = (case rd_pc (dispatchers w r) of
     Listening \<Rightarrow> (case chans w (rd_chan (dispatchers w r)) of
       None \<Rightarrow> None
     | Some c \<Rightarrow> (case receiver_recv (d_msgs E) c of
         Pending \<Rightarrow> None
       | Ready None \<Rightarrow> Some (chan_drop_rx E (rd_chan (dispatchers w r))
           (upd_dispatcher r (\<lambda>d. d\<lparr>rd_pc := ListenerEnded\<rparr>) w))
       | Ready (Some (m, c')) \<Rightarrow> Some (upd_dispatcher r (\<lambda>d. d\<lparr>rd_pc := Dispatching m\<rparr>)
           (w\<lparr>chans := (chans w)(rd_chan (dispatchers w r) \<mapsto> c')\<rparr>))))
   | Dispatching m \<Rightarrow> Some (upd_dispatcher r (\<lambda>d. d\<lparr>rd_pc := Listening\<rparr>) (dispatch_reply E r m w))
   | ListenerEnded \<Rightarrow> None)"

text \<open>An aborted listener is dropped, with its subscriber, the next time it waits.\<close>

definition listener_abort ::
    "('t, 'c, 'd, 'o) deps \<Rightarrow> nat \<Rightarrow> ('t, 'c, 'd, 'o) world \<Rightarrow> ('t, 'c, 'd, 'o) world option" where
  "listener_abort E r w =
     (if rd_abort (dispatchers w r) \<and> rd_pc (dispatchers w r) = Listening
      then Some (chan_drop_rx E (rd_chan (dispatchers w r))
        (upd_dispatcher r (\<lambda>d. d\<lparr>rd_pc := ListenerEnded\<rparr>) w))
      else None)"

definition reply_dispatcher_drop ::
    "('t, 'c, 'd, 'o) deps \<Rightarrow> nat \<Rightarrow> ('t, 'c, 'd, 'o) world \<Rightarrow> ('t, 'c, 'd, 'o) world" where
  "reply_dispatcher_drop E r w =
     fold (oneshot_drop_tx E) (map snd (rd_waiters (dispatchers w r)))
       (upd_dispatcher r (\<lambda>d. d\<lparr>rd_abort := True, rd_waiters := []\<rparr>) w)"

section \<open>Well-formed waiters\<close>

text \<open>
  One entry per message identifier, one cell per entry, every cell allocated and never filled: its
  request waits or has gone.
\<close>

definition waiters_ok ::
    "('o \<Rightarrow> message os_state) \<Rightarrow> nat \<Rightarrow> ('t, 'c, 'd, 'o) world \<Rightarrow> bool" where
  "waiters_ok cstate r w \<longleftrightarrow>
     distinct (map fst (rd_waiters (dispatchers w r))) \<and> distinct (map snd (rd_waiters (dispatchers w r))) \<and>
     (\<forall>tok\<in>snd ` set (rd_waiters (dispatchers w r)). tok < next_id w \<and>
        (\<exists>s. oneshots w tok = Some s \<and> (cstate s = OsWait \<or> cstate s = OsRxGone)))"

lemma upd_dispatcher_frame [frame_simps]:
  "inner (upd_dispatcher r f w) = inner w" "chans (upd_dispatcher r f w) = chans w"
  "slots (upd_dispatcher r f w) = slots w" "groups (upd_dispatcher r f w) = groups w"
  "tasks (upd_dispatcher r f w) = tasks w" "oneshots (upd_dispatcher r f w) = oneshots w"
  "next_id (upd_dispatcher r f w) = next_id w"
  "dispatchers (upd_dispatcher r f w) r' = (if r' = r then f (dispatchers w r) else dispatchers w r')"
  by (simp_all add: upd_dispatcher_def)

lemma oneshot_drop_dispatchers [frame_simps]:
  "dispatchers (oneshot_drop_tx E i w) = dispatchers w" "next_id (oneshot_drop_tx E i w) = next_id w"
  "oneshots (oneshot_drop_tx E i w) j =
     (if j = i then map_option (os_drop_tx (d_oneshots E)) (oneshots w i) else oneshots w j)"
  by (simp_all add: oneshot_drop_tx_def)

lemma fold_drop_dispatchers [frame_simps]:
  "dispatchers (fold (oneshot_drop_tx E) is w) = dispatchers w"
  "next_id (fold (oneshot_drop_tx E) is w) = next_id w"
  by (induction "is" arbitrary: w) (simp_all add: frame_simps)

lemma fold_drop_oneshots:
  "distinct is \<Longrightarrow> oneshots (fold (oneshot_drop_tx E) is w) j =
     (if j \<in> set is then map_option (os_drop_tx (d_oneshots E)) (oneshots w j) else oneshots w j)"
  by (induction "is" arbitrary: w) (auto simp: frame_simps)

lemma reply_send_dispatchers:
  "reply_send E tok m w = Inr w' \<Longrightarrow> dispatchers w' = dispatchers w \<and> next_id w' = next_id w \<and>
     (\<exists>s s'. oneshots w tok = Some s \<and> os_send (d_oneshots E) m s = Inr s' \<and>
        oneshots w' = (oneshots w)(tok \<mapsto> s'))"
  by (auto simp: reply_send_def split: option.splits sum.splits)

lemma snd_alist_drop: "snd ` set (alist_drop k ws) \<subseteq> snd ` set ws"
  by (auto simp: alist_drop_def)

lemma distinct_alist_drop:
  "distinct (map f ws) \<Longrightarrow> distinct (map f (alist_drop k ws))"
  by (simp add: alist_drop_def distinct_map_filter)

lemma alist_drop_snd:
  assumes "distinct (map snd ws)" and "map_of ws k = Some tok"
  shows "tok \<notin> snd ` set (alist_drop k ws)"
proof
  assume "tok \<in> snd ` set (alist_drop k ws)"
  then obtain j where j: "(j, tok) \<in> set ws" "j \<noteq> k" by (auto simp: alist_drop_def)
  have "(k, tok) \<in> set ws" using assms(2) by (rule map_of_SomeD)
  with j assms(1) show False by (fastforce simp: distinct_map inj_on_def)
qed

text \<open>
  The life of a dispatcher: its own operations, a request that goes away (it drops the receiver of
  its cell), and steps of the rest of the process.
\<close>

inductive replies_step ::
    "('t, 'c, 'd, 'o) deps \<Rightarrow> ('o \<Rightarrow> message os_state) \<Rightarrow> nat \<Rightarrow>
     ('t, 'c, 'd, 'o) world \<Rightarrow> ('t, 'c, 'd, 'o) world \<Rightarrow> bool" for E cstate r where
  rs_register: "register_waiter E r mid w = (q, w') \<Longrightarrow> replies_step E cstate r w w'"
| rs_remove: "replies_step E cstate r w (remove_waiter E r mid w)"
| rs_listen: "listener_step E r w = Some w' \<Longrightarrow> replies_step E cstate r w w'"
| rs_abort: "listener_abort E r w = Some w' \<Longrightarrow> replies_step E cstate r w w'"
| rs_drop: "replies_step E cstate r w (reply_dispatcher_drop E r w)"
| rs_gone: "oneshots w i = Some s \<Longrightarrow> cstate s = OsWait \<Longrightarrow> replies_step E cstate r w (oneshot_drop_rx E i w)"
| rs_other: "dispatchers w' r = dispatchers w r \<Longrightarrow> next_id w \<le> next_id w' \<Longrightarrow>
    (\<forall>i\<in>snd ` set (rd_waiters (dispatchers w r)). oneshots w' i = oneshots w i) \<Longrightarrow>
    replies_step E cstate r w w'"

inductive replies_reachable ::
    "('t, 'c, 'd, 'o) deps \<Rightarrow> ('o \<Rightarrow> message os_state) \<Rightarrow> nat \<Rightarrow> ('t, 'c, 'd, 'o) world \<Rightarrow> bool" for E cstate r where
  rr_new: "reply_dispatcher_new ch w = (r, w') \<Longrightarrow> replies_reachable E cstate r w'"
| rr_step: "replies_reachable E cstate r w \<Longrightarrow> replies_step E cstate r w w' \<Longrightarrow> replies_reachable E cstate r w'"

lemma waiters_ok_cong:
  assumes "waiters_ok cstate r w" and "next_id w \<le> next_id w'"
    and "set (rd_waiters (dispatchers w' r)) \<subseteq> set (rd_waiters (dispatchers w r))"
    and "distinct (map fst (rd_waiters (dispatchers w' r)))" "distinct (map snd (rd_waiters (dispatchers w' r)))"
    and "\<And>i. i \<in> snd ` set (rd_waiters (dispatchers w' r)) \<Longrightarrow> oneshots w' i = oneshots w i"
  shows "waiters_ok cstate r w'"
  using assms unfolding waiters_ok_def by (metis (no_types, lifting) image_mono order_less_le_trans subsetD)

context env
begin

lemma register_waiter_ok:
  assumes "waiters_ok cstate r w" and "register_waiter E r mid w = (q, w')"
  shows "waiters_ok cstate r w'"
proof (cases "map_of (rd_waiters (dispatchers w r)) mid")
  case None
  then have "mid \<notin> fst ` set (rd_waiters (dispatchers w r))" by (simp add: map_of_eq_None_iff)
  with None assms show ?thesis
    using cells.os_new by (fastforce simp: register_waiter_def waiters_ok_def frame_simps fresh_def Let_def)
qed (use assms in \<open>auto simp: register_waiter_def\<close>)

lemma remove_waiter_ok:
  assumes "waiters_ok cstate r w"
  shows "waiters_ok cstate r (remove_waiter E r mid w)"
proof (cases "map_of (rd_waiters (dispatchers w r)) mid")
  case (Some tok)
  have d: "distinct (map snd (rd_waiters (dispatchers w r)))" using assms by (simp add: waiters_ok_def)
  from alist_drop_snd [OF this Some] show ?thesis
    using assms Some
    by (intro waiters_ok_cong [OF assms])
      (auto simp: remove_waiter_def frame_simps waiters_ok_def distinct_map_filter alist_drop_def)
qed (use assms in \<open>simp add: remove_waiter_def\<close>)

lemma dispatch_reply_ok:
  assumes "waiters_ok cstate r w"
  shows "waiters_ok cstate r (dispatch_reply E r m w)"
proof -
  let ?w1 = "upd_dispatcher r (\<lambda>d. d\<lparr>rd_waiters := alist_drop (message_id (header m)) (rd_waiters d)\<rparr>) w"
  have d: "distinct (map snd (rd_waiters (dispatchers w r)))" using assms by (simp add: waiters_ok_def)
  have w1: "waiters_ok cstate r ?w1"
    using assms by (intro waiters_ok_cong [OF assms])
      (auto simp: frame_simps waiters_ok_def distinct_map_filter alist_drop_def)
  have w2: "waiters_ok cstate r w2"
    if t: "map_of (rd_waiters (dispatchers w r)) (message_id (header m)) = Some tok"
      and s: "reply_send E tok m ?w1 = Inr w2" for tok w2
  proof -
    have "(j, tok) \<notin> set (alist_drop (message_id (header m)) (rd_waiters (dispatchers w r)))" for j
      using alist_drop_snd [OF d t] by force
    with reply_send_dispatchers [OF s] w1 show ?thesis
      by (intro waiters_ok_cong [OF w1]) (auto simp: frame_simps waiters_ok_def)
  qed
  show ?thesis
    using w1 w2 by (auto simp: dispatch_reply_def Let_def split: option.split sum.split)
qed

lemma waiters_ok_pc:
  "waiters_ok cstate r (upd_dispatcher r (\<lambda>d. d\<lparr>rd_pc := pc\<rparr>) w) \<longleftrightarrow> waiters_ok cstate r w"
  "waiters_ok cstate r (w\<lparr>chans := cs\<rparr>) \<longleftrightarrow> waiters_ok cstate r w"
  "waiters_ok cstate r (chan_drop_rx E ch w) \<longleftrightarrow> waiters_ok cstate r w"
  by (simp_all add: waiters_ok_def frame_simps chan_drop_rx_def)

lemma listener_step_ok:
  assumes "waiters_ok cstate r w" and "listener_step E r w = Some w'"
  shows "waiters_ok cstate r w'"
  using assms dispatch_reply_ok [OF assms(1)]
  by (auto simp: listener_step_def waiters_ok_pc split: listener_pc.splits option.splits poll.splits)

lemma waiters_ok_gone:
  assumes "waiters_ok cstate r w" and "oneshots w i = Some s" and "cstate s = OsWait"
  shows "waiters_ok cstate r (oneshot_drop_rx E i w)"
  using assms cells.os_drop_rx_wait [OF assms(3)] by (auto simp: waiters_ok_def oneshot_drop_rx_def)

lemma replies_step_ok:
  assumes "replies_step E cstate r w w'" and "waiters_ok cstate r w"
  shows "waiters_ok cstate r w'"
  using assms
proof (induction rule: replies_step.induct)
  case (rs_abort w w')
  then show ?case by (auto simp: listener_abort_def waiters_ok_pc split: if_splits)
next
  case (rs_drop w)
  then show ?case by (simp add: waiters_ok_def reply_dispatcher_drop_def frame_simps)
next
  case (rs_other w' w)
  then show ?case
    by (intro waiters_ok_cong [OF rs_other(4)]) (auto simp: waiters_ok_def)
qed (auto intro: register_waiter_ok remove_waiter_ok listener_step_ok waiters_ok_gone)

lemma replies_reachable_ok: "replies_reachable E cstate r w \<Longrightarrow> waiters_ok cstate r w"
proof (induction rule: replies_reachable.induct)
  case (rr_new ch w w')
  then show ?case by (auto simp: reply_dispatcher_new_def waiters_ok_def)
next
  case (rr_step w w')
  then show ?case using replies_step_ok by blast
qed

text \<open>The listener dispatching a reply.\<close>

lemma listener_dispatch:
  assumes "replies_reachable E cstate r w" and "rd_pc (dispatchers w r) = Dispatching m"
  shows "\<exists>w'. listener_step E r w = Some w' \<and>
    map_of (rd_waiters (dispatchers w' r)) =
      (map_of (rd_waiters (dispatchers w r)))(message_id (header m) := None) \<and>
    (case map_of (rd_waiters (dispatchers w r)) (message_id (header m)) of
       None \<Rightarrow> oneshots w' = oneshots w
     | Some tok \<Rightarrow> (\<forall>i. i \<noteq> tok \<longrightarrow> oneshots w' i = oneshots w i) \<and>
         (\<exists>s s'. oneshots w tok = Some s \<and> oneshots w' tok = Some s' \<and>
            (cstate s = OsWait \<and> cstate s' = OsFull m \<or> cstate s = OsRxGone \<and> s' = s)))"
proof -
  let ?ws = "rd_waiters (dispatchers w r)" and ?id = "message_id (header m)"
  let ?w1 = "upd_dispatcher r (\<lambda>d. d\<lparr>rd_waiters := alist_drop ?id (rd_waiters d)\<rparr>) w"
  show ?thesis
  proof (cases "map_of ?ws ?id")
    case None
    then show ?thesis
      using assms(2) by (simp add: listener_step_def dispatch_reply_def frame_simps map_of_alist_drop Let_def)
  next
    case (Some tok)
    have "waiters_ok cstate r w" using replies_reachable_ok assms(1) by blast
    then obtain s where s: "oneshots w tok = Some s" "cstate s = OsWait \<or> cstate s = OsRxGone"
      using map_of_SomeD [OF Some] by (force simp: waiters_ok_def)
    show ?thesis
    proof (cases "cstate s = OsWait")
      case True
      then obtain s' where "os_send (d_oneshots E) m s = Inr s'" "cstate s' = OsFull m"
        using cells.os_send_ok [of s m] by blast
      with s True Some assms(2) show ?thesis
        by (simp add: listener_step_def dispatch_reply_def reply_send_def frame_simps map_of_alist_drop Let_def)
    next
      case False
      then have "os_send (d_oneshots E) m s = Inl m"
        using s(2) cells.os_send_gone [of s m] by blast
      with s False Some assms(2) show ?thesis
        by (simp add: listener_step_def dispatch_reply_def reply_send_def frame_simps map_of_alist_drop Let_def)
    qed
  qed
qed

end

section \<open>Properties\<close>

lemma alist_drop_absent: "map_of ws k = None \<Longrightarrow> alist_drop k ws = ws"
  by (auto simp: alist_drop_def map_of_eq_None_iff filter_id_conv)

lemma alist_drop_Cons_same: "alist_drop k ((k, v) # ws) = alist_drop k ws"
  by (simp add: alist_drop_def)

text \<open>
  C20. Replies are correlated by message identifier and used once: the listener hands a reply to the
  cell of the request waiting under its identifier and to no other cell, and removes the entry,
  so that a second reply with the same identifier reaches nobody; a reply nobody waits for changes
  no cell, and one whose request has gone is discarded.
\<close>

theorem reply_correlated:
  assumes "env E queue cap txs rx rqueue rcap rtxs rrx cstate" and "replies_reachable E cstate r w"
    and "rd_pc (dispatchers w r) = Dispatching m"
  shows "\<exists>w'. listener_step E r w = Some w' \<and>
    map_of (rd_waiters (dispatchers w' r)) =
      (map_of (rd_waiters (dispatchers w r)))(message_id (header m) := None) \<and>
    (case map_of (rd_waiters (dispatchers w r)) (message_id (header m)) of
       None \<Rightarrow> oneshots w' = oneshots w
     | Some tok \<Rightarrow> (\<forall>i. i \<noteq> tok \<longrightarrow> oneshots w' i = oneshots w i) \<and>
         (\<exists>s s'. oneshots w tok = Some s \<and> oneshots w' tok = Some s' \<and>
            (cstate s = OsWait \<and> cstate s' = OsFull m \<or> cstate s = OsRxGone \<and> s' = s)))"
  using env.listener_dispatch [OF assms] .

text \<open>
  A guard leaves no trace: registering a waiter is refused exactly when its identifier is already
  waited for; otherwise it adds one entry with an empty cell, and dropping the guard restores the
  map of waiters exactly and closes the cell if no reply has come.
\<close>

theorem waiter_guard_roundtrip:
  assumes "env E queue cap txs rx rqueue rcap rtxs rrx cstate" and "replies_reachable E cstate r w"
    and "register_waiter E r mid w = (q, w')"
  shows "if map_of (rd_waiters (dispatchers w r)) mid \<noteq> None then q = Inl WaiterAlreadyExists \<and> w' = w
    else \<exists>tok s s'. q = Inr tok \<and> map_of (rd_waiters (dispatchers w' r)) mid = Some tok \<and>
      oneshots w' tok = Some s \<and> cstate s = OsWait \<and>
      rd_waiters (dispatchers (remove_waiter E r mid w') r) = rd_waiters (dispatchers w r) \<and>
      oneshots (remove_waiter E r mid w') tok = Some s' \<and> cstate s' = OsTxGone"
proof (cases "map_of (rd_waiters (dispatchers w r)) mid")
  case None
  note cells = env.axioms(3) [OF assms(1)]
  have "cstate (os_drop_tx (d_oneshots E) (os_channel (d_oneshots E))) = OsTxGone"
    using oneshot.os_drop_tx_wait [OF cells] oneshot.os_new [OF cells] by blast
  with None assms(3) show ?thesis
    using oneshot.os_new [OF cells]
    by (auto simp: register_waiter_def remove_waiter_def frame_simps fresh_def Let_def
        alist_drop_Cons_same alist_drop_absent)
qed (use assms(3) in \<open>auto simp: register_waiter_def\<close>)

text \<open>
  C39. Dropping the dispatcher fails fast: no waiter remains, and every request that was waiting finds
  its cell closed at once instead of waiting for its timeout.
\<close>

theorem dispatcher_drop_wakes_all:
  assumes "env E queue cap txs rx rqueue rcap rtxs rrx cstate" and "replies_reachable E cstate r w"
  shows "rd_waiters (dispatchers (reply_dispatcher_drop E r w) r) = [] \<and>
    (\<forall>mid tok s. map_of (rd_waiters (dispatchers w r)) mid = Some tok \<and> oneshots w tok = Some s \<and>
       cstate s = OsWait \<longrightarrow>
       (\<exists>s'. oneshots (reply_dispatcher_drop E r w) tok = Some s' \<and> cstate s' = OsTxGone))"
proof -
  have "distinct (map snd (rd_waiters (dispatchers w r)))"
    using env.replies_reachable_ok [OF assms] by (simp add: waiters_ok_def)
  note dr = fold_drop_oneshots [OF this, of E]
  show ?thesis
    using oneshot.os_drop_tx_wait [OF env.axioms(3) [OF assms(1)]]
    by (auto simp: reply_dispatcher_drop_def frame_simps dr dest!: map_of_SomeD) force
qed

text \<open>
  Reusing a message identifier too early loses a reply: the guard of a request whose reply has
  been dispatched removes whatever is registered under its identifier when it is dropped, also the
  waiter of a later request, whose cell is closed.
\<close>

theorem stale_guard_removes_new_waiter:
  assumes "env E queue cap txs rx rqueue rcap rtxs rrx cstate" and "replies_reachable E cstate r w"
    and "register_waiter E r (message_id (header m)) (dispatch_reply E r m w) = (Inr tok, w')"
  shows "map_of (rd_waiters (dispatchers w' r)) (message_id (header m)) = Some tok \<and>
    map_of (rd_waiters (dispatchers (remove_waiter E r (message_id (header m)) w') r)) (message_id (header m)) = None \<and>
    (\<exists>s. oneshots (remove_waiter E r (message_id (header m)) w') tok = Some s \<and> cstate s = OsTxGone)"
proof -
  note cells = env.axioms(3) [OF assms(1)]
  have "cstate (os_drop_tx (d_oneshots E) (os_channel (d_oneshots E))) = OsTxGone"
    using oneshot.os_drop_tx_wait [OF cells] oneshot.os_new [OF cells] by blast
  then show ?thesis
    using assms(3)
    by (auto simp: register_waiter_def remove_waiter_def frame_simps fresh_def Let_def map_of_alist_drop
        split: if_splits)
qed

section \<open>Witnesses\<close>

text \<open>A dispatcher on the channel of the sample subscription, with one request waiting, and a reply to it.\<close>

abbreviation sample_id :: bytes where
  "sample_id \<equiv> message_id (header ab_message)"

definition w_replies :: std_world where
  "w_replies = snd (reply_dispatcher_new 0 w_sub)"

definition w_waiting :: std_world where
  "w_waiting = snd (register_waiter std_deps 2 sample_id w_replies)"

definition w_replied :: std_world where
  "w_replied = the (listener_step std_deps 2 (w_waiting\<lparr>chans := (chans w_waiting)
     (0 \<mapsto> \<lparr>bq_items = [ab_message], bq_cap = 2, bq_txs = 1, bq_rx = True\<rparr>)\<rparr>))"

lemma w_sub_next: "next_id w_sub = 2"
  by (simp add: w_sub_def register_def w_before_def slot_new_def chan_alloc_def fresh_def world_new_def
      split: sum.split lookup_result.split)

lemma w_replies_eval:
  "reply_dispatcher_new 0 w_sub = (2, w_replies)"
  "dispatchers w_replies 2 = \<lparr>rd_waiters = [], rd_chan = 0, rd_pc = Listening, rd_abort = False\<rparr>"
  "next_id w_replies = 3" "oneshots w_replies = oneshots w_sub" "chans w_replies = chans w_sub"
  by (simp_all add: w_replies_def reply_dispatcher_new_def w_sub_next fresh_def)

lemma w_waiting_eval:
  "register_waiter std_deps 2 sample_id w_replies = (Inr 3, w_waiting)"
  "dispatchers w_waiting 2 = \<lparr>rd_waiters = [(sample_id, 3)], rd_chan = 0, rd_pc = Listening, rd_abort = False\<rparr>"
  "oneshots w_waiting 3 = Some OsWait" "chans w_waiting = chans w_sub"
  by (simp_all add: w_waiting_def register_waiter_def w_replies_eval frame_simps fresh_def std_deps_def cell_ops_def)

lemma w_waiting_reachable: "replies_reachable std_deps (\<lambda>s. s) 2 w_waiting"
  using rr_step [OF rr_new [OF w_replies_eval(1)] rs_register [OF w_waiting_eval(1)]] .

lemma w_replied_eval:
  "listener_step std_deps 2 (w_waiting\<lparr>chans := (chans w_waiting)
     (0 \<mapsto> \<lparr>bq_items = [ab_message], bq_cap = 2, bq_txs = 1, bq_rx = True\<rparr>)\<rparr>) = Some w_replied"
  "rd_pc (dispatchers w_replied 2) = Dispatching ab_message"
  "rd_waiters (dispatchers w_replied 2) = [(sample_id, 3)]" "oneshots w_replied = oneshots w_waiting"
  by (simp_all add: w_replied_def listener_step_def w_waiting_eval frame_simps receiver_recv_def
      std_deps_def bq_ops_def)

lemma w_replied_reachable: "replies_reachable std_deps (\<lambda>s. s) 2 w_replied"
  by (rule rr_step [OF rr_step [OF w_waiting_reachable rs_other] rs_listen [OF w_replied_eval(1)]]) simp_all

theorem reply_correlated_witness:
  "\<exists>w'. listener_step std_deps 2 w_replied = Some w' \<and> oneshots w' 3 = Some (OsFull ab_message)"
  using reply_correlated [OF std.env_axioms w_replied_reachable w_replied_eval(2)]
  by (auto simp: w_replied_eval w_waiting_eval)

theorem waiter_guard_roundtrip_witness:
  "rd_waiters (dispatchers (remove_waiter std_deps 2 sample_id w_waiting) 2) = []"
  using waiter_guard_roundtrip [OF std.env_axioms rr_new [OF w_replies_eval(1)] w_waiting_eval(1)]
  by (simp add: w_replies_eval)

theorem dispatcher_drop_wakes_all_witness:
  "oneshots (reply_dispatcher_drop std_deps 2 w_waiting) 3 = Some OsTxGone"
  using dispatcher_drop_wakes_all [OF std.env_axioms w_waiting_reachable] by (simp add: w_waiting_eval)

theorem stale_guard_removes_new_waiter_witness:
  "\<exists>tok w'. register_waiter std_deps 2 sample_id (dispatch_reply std_deps 2 ab_message w_replied) = (Inr tok, w') \<and>
     oneshots (remove_waiter std_deps 2 sample_id w') tok = Some OsTxGone"
proof -
  have "map_of (rd_waiters (dispatchers (dispatch_reply std_deps 2 ab_message w_replied) 2)) sample_id = None"
    by (simp add: dispatch_reply_def reply_send_def w_replied_eval w_waiting_eval frame_simps alist_drop_def
        std_deps_def cell_ops_def)
  then obtain tok w' where
    reg: "register_waiter std_deps 2 sample_id (dispatch_reply std_deps 2 ab_message w_replied) = (Inr tok, w')"
    by (simp add: register_waiter_def Let_def)
  with stale_guard_removes_new_waiter [OF std.env_axioms w_replied_reachable reg] show ?thesis by auto
qed

end
