(* ===== verification/Requests.thy ===== *)
theory Requests
  imports Replies
begin

text \<open>
  The request/response call that \<^verbatim>\<open>BrokerClient::request\<close> and \<^verbatim>\<open>Publisher::request\<close> share
  (\<^verbatim>\<open>client/mod.rs\<close> lines 273 to 300 and \<^verbatim>\<open>client/publisher.rs\<close> lines 213 to 245): the message is
  turned into a request, a waiter is registered, the message is sent, and the reply is awaited with
  a timeout. A call in flight is a value, with the \<^verbatim>\<open>.await\<close> it is suspended at; every way out of it
  drops the receiver and the guard. The lemmas follow a call from its start to its result.
\<close>

section \<open>The message of a request\<close>

text \<open>The transfer mode is forced to \<^verbatim>\<open>InOut\<close> and the reply address to the client's own.\<close>

definition request_message :: "bytes \<Rightarrow> message \<Rightarrow> message" where
  "request_message reply m =
     m\<lparr>header := (header m)\<lparr>flags := (flags (header m) AND NOT TRANSFER_MODE_MASK) OR to_flags InOut\<rparr>,
       reply_to := reply\<rparr>"

section \<open>A call in flight\<close>

datatype 'p request_pc = ReqSending 'p message | ReqWaiting

record 'p request =
  rq_dispatcher :: nat
  rq_id :: bytes
  rq_cell :: nat
  rq_pc :: "'p request_pc"

datatype 'p request_status = Done "transport_error + message" | InFlight "'p request"

text \<open>Leaving the call, by a result, an error or cancellation: receiver and guard are dropped.\<close>

definition request_end ::
    "('t, 'c, 'd, 'o) deps \<Rightarrow> 'p request \<Rightarrow> ('t, 'c, 'd, 'o) world \<Rightarrow> ('t, 'c, 'd, 'o) world" where
  "request_end E rq w = remove_waiter E (rq_dispatcher rq) (rq_id rq) (oneshot_drop_rx E (rq_cell rq) w)"

text \<open>
  \<^verbatim>\<open>tokio::time::timeout(.., receiver).await\<close>: the receiver is polled first; \<open>elapsed\<close> says whether
  the deadline has passed.
\<close>

definition request_await ::
    "('t, 'c, 'd, 'o) deps \<Rightarrow> bool \<Rightarrow> 'p request \<Rightarrow> ('t, 'c, 'd, 'o) world \<Rightarrow>
     'p request_status \<times> ('t, 'c, 'd, 'o) world" where
  "request_await E elapsed rq w = (case oneshots w (rq_cell rq) of
     None \<Rightarrow> (InFlight rq, w)
   | Some s \<Rightarrow> (case os_poll (d_oneshots E) s of
       Ready (Some response) \<Rightarrow> (Done (Inr response), request_end E rq w)
     | Ready None \<Rightarrow> (Done (Inl ConnectionClosed), request_end E rq w)
     | Pending \<Rightarrow> if elapsed then (Done (Inl Timeout), request_end E rq w) else (InFlight rq, w)))"

text \<open>What a poll of the send decides: go on, stay suspended at \<open>p\<close>, or fail.\<close>

definition request_sent ::
    "('t, 'c, 'd, 'o) deps \<Rightarrow> bool \<Rightarrow> 'p request \<Rightarrow> 'p request_pc \<Rightarrow>
     (transport_error + ('t, 'c, 'd, 'o) world) poll \<Rightarrow> ('t, 'c, 'd, 'o) world \<Rightarrow>
     'p request_status \<times> ('t, 'c, 'd, 'o) world" where
  "request_sent E elapsed rq suspended sent w = (case sent of
     Pending \<Rightarrow> (InFlight (rq\<lparr>rq_pc := suspended\<rparr>), w)
   | Ready (Inl e) \<Rightarrow> (Done (Inl e), request_end E rq w)
   | Ready (Inr w') \<Rightarrow> request_await E elapsed (rq\<lparr>rq_pc := ReqWaiting\<rparr>) w')"

definition request_poll ::
    "('t, 'c, 'd, 'o) deps \<Rightarrow> (('t, 'c, 'd, 'o) world, 'e, 'p) transport_ops \<Rightarrow> bool \<Rightarrow> 'p request \<Rightarrow>
     ('t, 'c, 'd, 'o) world \<Rightarrow> 'p request_status \<times> ('t, 'c, 'd, 'o) world" where
  "request_poll E T elapsed rq w = (case rq_pc rq of
     ReqSending p m \<Rightarrow> request_sent E elapsed rq (rq_pc rq) (tr_resume T p m w) w
   | ReqWaiting \<Rightarrow> request_await E elapsed rq w)"

text \<open>
  Registering the waiter and the first poll of the send, to the endpoint \<open>find_ep\<close> gives in the state
  after the registration.
\<close>

definition request_begin ::
    "('t, 'c, 'd, 'o) deps \<Rightarrow> (('t, 'c, 'd, 'o) world, 'e, 'p) transport_ops \<Rightarrow> bool \<Rightarrow> nat \<Rightarrow>
     (('t, 'c, 'd, 'o) world \<Rightarrow> transport_error + 'e) \<Rightarrow> message \<Rightarrow> ('t, 'c, 'd, 'o) world \<Rightarrow>
     'p request_status \<times> ('t, 'c, 'd, 'o) world" where
  "request_begin E T elapsed r find_ep m w =
     (case register_waiter E r (message_id (header m)) w of
        (Inl e, w1) \<Rightarrow> (Done (Inl (TRegistry e)), w1)
      | (Inr cell, w1) \<Rightarrow>
          (let rq = \<lparr>rq_dispatcher = r, rq_id = message_id (header m), rq_cell = cell, rq_pc = ReqWaiting\<rparr>
           in case find_ep w1 of
                Inl e \<Rightarrow> (Done (Inl e), request_end E rq w1)
              | Inr ep \<Rightarrow> request_sent E elapsed rq
                  (case tr_suspended T ep w1 of Some p \<Rightarrow> ReqSending p m | None \<Rightarrow> ReqWaiting)
                  (tr_send_to T ep m w1) w1))"

text \<open>The address of a message as \<^verbatim>\<open>Transport::send\<close> reads and resolves it.\<close>

definition resolve_message ::
    "('w, 'e, 'p) transport_ops \<Rightarrow> message \<Rightarrow> 'w \<Rightarrow> transport_error + 'e" where
  "resolve_message T m w = (case from_utf8 (address m) of
     None \<Rightarrow> Inl (TProtocol InvalidAddressUtf8)
   | Some addr \<Rightarrow> tr_resolve T addr w)"

lemma transport_send_resolve:
  "transport_send T m w = (case resolve_message T m w of
     Inl e \<Rightarrow> Ready (Inl e) | Inr ep \<Rightarrow> tr_send_to T ep m w)"
  by (simp add: transport_send_def resolve_message_def split: option.split)

text \<open>\<^verbatim>\<open>BrokerClient::request\<close> over the transport \<open>T\<close>, for a client with address \<open>reply\<close>.\<close>

definition client_request ::
    "('t, 'c, 'd, 'o) deps \<Rightarrow> (('t, 'c, 'd, 'o) world, 'e, 'p) transport_ops \<Rightarrow> bool \<Rightarrow> nat \<Rightarrow> bytes \<Rightarrow>
     message \<Rightarrow> ('t, 'c, 'd, 'o) world \<Rightarrow> 'p request_status \<times> ('t, 'c, 'd, 'o) world" where
  "client_request E T elapsed r reply m w =
     (let m' = request_message reply m
      in request_begin E T elapsed r (resolve_message T m') m' w)"

section \<open>Lemmas\<close>

lemma forced_inout: "from_flags ((f AND NOT TRANSFER_MODE_MASK) OR to_flags InOut) = Inr InOut"
proof -
  have "((f AND NOT 1) OR 1) AND 1 = (1 :: u8)"
    by (simp add: bit.conj_disj_distrib2 bit.conj_disj_distrib and.assoc)
  then show ?thesis by (simp add: from_flags_def to_flags_def protocol_consts)
qed

lemma request_message_simps [simp]:
  "message_id (header (request_message reply m)) = message_id (header m)"
  "address (request_message reply m) = address m" "reply_to (request_message reply m) = reply"
  by (simp_all add: request_message_def)

lemma chan_send_frame: "chan_send E ch m w = Ready (Inr w') \<Longrightarrow>
    dispatchers w' = dispatchers w \<and> oneshots w' = oneshots w \<and> next_id w' = next_id w \<and> inner w' = inner w"
  by (auto simp: chan_send_def split: option.splits poll.splits sum.splits)

lemma endpoint_send_frame: "endpoint_send E ep m w = Ready (Inr w') \<Longrightarrow>
    dispatchers w' = dispatchers w \<and> oneshots w' = oneshots w"
  by (auto simp: endpoint_send_def target_send_def slot_send_def dest: chan_send_frame
      split: route_target.splits option.splits poll.splits sum.splits)

lemma send_resume_frame: "send_resume E ch m w = Ready (Inr w') \<Longrightarrow>
    dispatchers w' = dispatchers w \<and> oneshots w' = oneshots w"
  by (auto simp: send_resume_def dest: chan_send_frame split: poll.splits sum.splits)

lemma oneshot_drop_rx_frame [frame_simps]:
  "dispatchers (oneshot_drop_rx E i w) = dispatchers w" "inner (oneshot_drop_rx E i w) = inner w"
  "chans (oneshot_drop_rx E i w) = chans w" "next_id (oneshot_drop_rx E i w) = next_id w"
  by (simp_all add: oneshot_drop_rx_def)

lemma remove_waiter_waiters:
  "rd_waiters (dispatchers (remove_waiter E r mid w) r) = alist_drop mid (rd_waiters (dispatchers w r))"
  by (auto simp: remove_waiter_def frame_simps alist_drop_absent split: option.split)

lemma request_end_waiters:
  "rd_waiters (dispatchers (request_end E rq w) (rq_dispatcher rq)) =
     alist_drop (rq_id rq) (rd_waiters (dispatchers w (rq_dispatcher rq)))"
  by (simp add: request_end_def remove_waiter_waiters frame_simps)

lemma request_await_Done:
  assumes "request_await E elapsed rq w = (Done res, w')"
  shows "rd_waiters (dispatchers w' (rq_dispatcher rq)) =
    alist_drop (rq_id rq) (rd_waiters (dispatchers w (rq_dispatcher rq)))"
  using assms request_end_waiters [of E rq w]
  by (auto simp: request_await_def split: option.splits poll.splits if_splits)

lemma request_sent_Done:
  assumes "request_sent E elapsed rq pc sent w = (Done res, w')"
    and "\<And>v. sent = Ready (Inr v) \<Longrightarrow> dispatchers v = dispatchers w"
  shows "rd_waiters (dispatchers w' (rq_dispatcher rq)) =
    alist_drop (rq_id rq) (rd_waiters (dispatchers w (rq_dispatcher rq)))"
  using assms request_end_waiters [of E rq w]
    request_await_Done [of E elapsed "rq\<lparr>rq_pc := ReqWaiting\<rparr>" _ res w']
  by (auto simp: request_sent_def split: poll.splits sum.splits)

lemma register_waiter_waiters:
  assumes "register_waiter E r mid w = (Inr cell, w1)"
  shows "rd_waiters (dispatchers w1 r) = (mid, cell) # rd_waiters (dispatchers w r)"
    and "map_of (rd_waiters (dispatchers w r)) mid = None"
  using assms by (auto simp: register_waiter_def frame_simps Let_def fresh_def split: if_splits)

lemma request_begin_Done:
  assumes "request_begin E (in_memory E) elapsed r find_ep m w = (Done res, w')"
  shows "rd_waiters (dispatchers w' r) = rd_waiters (dispatchers w r)"
proof (cases "register_waiter E r (message_id (header m)) w")
  case (Pair q w1)
  show ?thesis
  proof (cases q)
    case (Inl e)
    then show ?thesis
      using assms Pair by (auto simp: request_begin_def register_waiter_def Let_def split: if_splits)
  next
    case (Inr cell)
    let ?id = "message_id (header m)"
    let ?rq = "\<lparr>rq_dispatcher = r, rq_id = ?id, rq_cell = cell, rq_pc = ReqWaiting\<rparr> :: nat request"
    have reg: "rd_waiters (dispatchers w1 r) = (?id, cell) # rd_waiters (dispatchers w r)"
        "map_of (rd_waiters (dispatchers w r)) ?id = None"
      using register_waiter_waiters Pair Inr by blast+
    have "rd_waiters (dispatchers w' r) = alist_drop ?id (rd_waiters (dispatchers w1 r))"
    proof (cases "find_ep w1")
      case (Inl e)
      then show ?thesis
        using assms Pair Inr request_end_waiters [of E ?rq w1] by (simp add: request_begin_def)
    next
      case (Inr ep)
      then show ?thesis
        using assms Pair \<open>q = Inr cell\<close> request_sent_Done [of E elapsed ?rq] endpoint_send_frame
        by (fastforce simp: request_begin_def)
    qed
    with reg show ?thesis by (simp add: alist_drop_Cons_same alist_drop_absent)
  qed
qed

section \<open>Properties\<close>

text \<open>
  C28. What a request call sends. When the subscription that receives the destination has room and no
  call waits under the identifier, the call registers a waiter under the caller's identifier, with a
  cell of its own, and appends exactly one message to exactly that queue: the caller's identifier,
  destination, type and payload, the transfer mode InOut whatever the caller set, and the client's
  address as reply address whatever the caller wrote; the call then waits for the reply.
\<close>

theorem request_sends:
  assumes "env E queue cap txs rx rqueue rcap rtxs rrx cstate" and "registry_reachable E w"
    and "is_utf8 (address m)" and "concrete (address m)" and "routes E w k = Some t" and "covers k (address m)"
    and "slot_sender (slots w (target_slot w t)) = Some ch" and "chans w ch = Some c"
    and "rx c" and "length (queue c) < cap c"
    and "map_of (rd_waiters (dispatchers w r)) (message_id (header m)) = None"
  shows "\<exists>cell c' m' w'. client_request E (in_memory E) False r reply m w =
      (InFlight \<lparr>rq_dispatcher = r, rq_id = message_id (header m), rq_cell = cell, rq_pc = ReqWaiting\<rparr>, w') \<and>
    map_of (rd_waiters (dispatchers w' r)) =
      (map_of (rd_waiters (dispatchers w r)))(message_id (header m) \<mapsto> cell) \<and>
    chans w' = (chans w)(ch \<mapsto> c') \<and> queue c' = queue c @ [m'] \<and>
    message_transfer_mode m' = Inr InOut \<and> reply_to m' = reply \<and>
    message_id (header m') = message_id (header m) \<and> address m' = address m \<and>
    msg_type m' = msg_type m \<and> payload m' = payload m"
proof -
  let ?m = "request_message reply m" and ?id = "message_id (header m)" and ?cell = "next_id w"
  obtain w1 where w1: "register_waiter E r ?id w = (Inr ?cell, w1)"
      "rd_waiters (dispatchers w1 r) = (?id, ?cell) # rd_waiters (dispatchers w r)"
      "inner w1 = inner w" "slots w1 = slots w" "groups w1 = groups w" "chans w1 = chans w"
      "oneshots w1 ?cell = Some (os_channel (d_oneshots E))"
    using assms(11) by (simp add: register_waiter_def frame_simps Let_def fresh_def upd_dispatcher_def)
  have l: "lookup E (address m) w1 = Some t"
    using env.lookup_routes [OF assms(1,2,4)] assms(5,6) w1(3) by (simp add: lookup_def) blast
  have ts: "target_slot w1 t = target_slot w t" using w1(5) by (simp add: target_slot_def split: route_target.split)
  obtain c' where c': "chan_send E ch ?m w1 = Ready (Inr (w1\<lparr>chans := (chans w)(ch \<mapsto> c')\<rparr>))" "queue c' = queue c @ [?m]"
    using env.chan_send_cases [OF assms(1), of w1 ch c ?m] assms(8,9,10) w1(6) by (metis not_less)
  have s: "endpoint_send E (endpoint_new t w1) ?m w1 = Ready (Inr (w1\<lparr>chans := (chans w)(ch \<mapsto> c')\<rparr>))"
    using c'(1) assms(7) ts w1(4)
    by (auto simp: endpoint_send_def endpoint_new_def target_send_def target_slot_def slot_send_def split: route_target.splits)
  have "os_poll (d_oneshots E) (os_channel (d_oneshots E)) = Pending"
    using oneshot.os_poll_wait [OF env.axioms(3) [OF assms(1)] oneshot.os_new [OF env.axioms(3) [OF assms(1)]]] .
  then have "client_request E (in_memory E) False r reply m w =
      (InFlight \<lparr>rq_dispatcher = r, rq_id = ?id, rq_cell = ?cell, rq_pc = ReqWaiting\<rparr>, w1\<lparr>chans := (chans w)(ch \<mapsto> c')\<rparr>)"
    using w1(1,7) l s assms(3)
    by (simp add: client_request_def request_begin_def resolve_message_def from_utf8_def resolve_def request_sent_def
        request_await_def)
  moreover have "message_transfer_mode ?m = Inr InOut" "msg_type ?m = msg_type m" "payload ?m = payload m"
    by (simp_all add: message_transfer_mode_def header_transfer_mode_def request_message_def forced_inout)
  ultimately show ?thesis
    using w1(2) c'(2)
    by (intro exI [of _ ?cell] exI [of _ c'] exI [of _ ?m] exI [of _ "w1\<lparr>chans := (chans w)(ch \<mapsto> c')\<rparr>"]) simp
qed

text \<open>
  A request message is well formed if the caller's message is, provided the client's address is a valid
  address within the length limit; creating a client does not check that.
\<close>

lemma request_message_ok:
  assumes "message_ok m" and "address_spec reply" and "length reply \<le> MAX_ADDRESS_LEN"
  shows "message_ok (request_message reply m)"
proof -
  have mode: "header_transfer_mode (header (request_message reply m)) = Inr InOut"
    by (simp add: header_transfer_mode_def request_message_def forced_inout)
  moreover have "header_ok (header (request_message reply m))"
    using assms(1) by (simp add: message_ok_def request_message_def header_ok_def header_typed_def)
  moreover have "reply_to_ok (request_message reply m)"
    using mode assms(2,3) by (simp add: reply_to_ok_def)
  ultimately show ?thesis
    using assms(1) by (simp add: message_ok_def) (simp add: request_message_def)
qed

text \<open>
  C23. No request leaves a waiter behind: a call that returns from its first poll leaves the map of
  waiters exactly as it was, whatever the result, and a call that returns later leaves no entry
  under its identifier and every other entry in place.
\<close>

theorem request_cleans_up:
  "(client_request E (in_memory E) elapsed r reply m w = (Done res, w') \<longrightarrow>
     rd_waiters (dispatchers w' r) = rd_waiters (dispatchers w r)) \<and>
   (request_poll E (in_memory E) elapsed rq w = (Done res, w') \<longrightarrow>
     map_of (rd_waiters (dispatchers w' (rq_dispatcher rq))) =
       (map_of (rd_waiters (dispatchers w (rq_dispatcher rq))))(rq_id rq := None))"
proof (intro conjI impI)
  assume "client_request E (in_memory E) elapsed r reply m w = (Done res, w')"
  then show "rd_waiters (dispatchers w' r) = rd_waiters (dispatchers w r)"
    by (auto simp: client_request_def Let_def intro: request_begin_Done)
next
  assume p: "request_poll E (in_memory E) elapsed rq w = (Done res, w')"
  have "rd_waiters (dispatchers w' (rq_dispatcher rq)) =
      alist_drop (rq_id rq) (rd_waiters (dispatchers w (rq_dispatcher rq)))"
  proof (cases "rq_pc rq")
    case (ReqSending ch m)
    with p have "request_sent E elapsed rq (rq_pc rq) (send_resume E ch m w) w = (Done res, w')"
      by (simp add: request_poll_def)
    then show ?thesis by (rule request_sent_Done) (simp add: send_resume_frame)
  next
    case ReqWaiting
    with p show ?thesis by (simp add: request_poll_def request_await_Done)
  qed
  then show "map_of (rd_waiters (dispatchers w' (rq_dispatcher rq))) =
      (map_of (rd_waiters (dispatchers w (rq_dispatcher rq))))(rq_id rq := None)"
    by (simp add: map_of_alist_drop)
qed

text \<open>
  C22. A request gets the reply with its identifier: when the listener dispatches a reply to a call
  that still waits, the next poll of the call returns exactly that reply, even if the deadline has
  passed meanwhile; before that, the call waits until its deadline and then reports a timeout.
\<close>

theorem request_gets_reply:
  assumes "env E queue cap txs rx rqueue rcap rtxs rrx cstate" and "replies_reachable E cstate (rq_dispatcher rq) w"
    and "map_of (rd_waiters (dispatchers w (rq_dispatcher rq))) (rq_id rq) = Some (rq_cell rq)"
    and "oneshots w (rq_cell rq) = Some s" and "cstate s = OsWait" and "rq_pc rq = ReqWaiting"
    and "rd_pc (dispatchers w (rq_dispatcher rq)) = Dispatching response"
    and "message_id (header response) = rq_id rq"
  shows "(\<exists>w'. listener_step E (rq_dispatcher rq) w = Some w' \<and>
      fst (request_poll E T elapsed rq w') = Done (Inr response)) \<and>
    fst (request_poll E T elapsed rq w) = (if elapsed then Done (Inl Timeout) else InFlight rq)"
proof
  note cells = env.axioms(3) [OF assms(1)]
  obtain w' s' where w': "listener_step E (rq_dispatcher rq) w = Some w'"
      "oneshots w' (rq_cell rq) = Some s'" "cstate s' = OsFull response"
    using env.listener_dispatch [OF assms(1,2,7)] assms(3,4,5,8) by auto
  then have "os_poll (d_oneshots E) s' = Ready (Some response)"
    using oneshot.os_poll_full [OF cells] by blast
  with w' assms(6) show "\<exists>w'. listener_step E (rq_dispatcher rq) w = Some w' \<and>
      fst (request_poll E T elapsed rq w') = Done (Inr response)"
    by (simp add: request_poll_def request_await_def)
  show "fst (request_poll E T elapsed rq w) = (if elapsed then Done (Inl Timeout) else InFlight rq)"
    using assms(4,5,6) oneshot.os_poll_wait [OF cells assms(5)] by (simp add: request_poll_def request_await_def)
qed

section \<open>Witnesses\<close>

definition sample_request :: "nat request" where
  "sample_request = \<lparr>rq_dispatcher = 2, rq_id = sample_id, rq_cell = 3, rq_pc = ReqWaiting\<rparr>"

theorem request_sends_witness:
  "\<exists>c' m' w' rq. client_request std_deps (in_memory std_deps) False 2 (ascii ''me'') ab_message w_replies = (InFlight rq, w') \<and>
     chans w' 0 = Some c' \<and> bq_items c' = [m'] \<and> message_transfer_mode m' = Inr InOut \<and> reply_to m' = ascii ''me''"
proof -
  have i: "inner w_replies = inner w_sub" "slots w_replies = slots w_sub" "chans w_replies = chans w_sub"
    by (simp_all add: w_replies_def reply_dispatcher_new_def fresh_def)
  have r: "registry_reachable std_deps w_replies" by (rule reach_step [OF w_sub_reachable step_other [OF i(1)]])
  have t: "routes std_deps w_replies (ascii ''a:b'') = Some (Single 1)" using w_sub_eval(2) i(1) by (simp add: routes_def)
  have sl: "slot_sender (slots w_replies (target_slot w_replies (Single 1))) = Some 0"
    using w_sub_eval(3) i(2) by (simp add: target_slot_def)
  have ch: "chans w_replies 0 = Some \<lparr>bq_items = [], bq_cap = 2, bq_txs = 1, bq_rx = True\<rparr>"
    using w_sub_eval(4) i(3) by simp
  show ?thesis
    using request_sends [OF std.env_axioms r ab_utf8 t ab_covers sl ch, of 2 "ascii ''me''"]
    by (fastforce simp: w_replies_eval)
qed

definition lost_message :: message where
  "lost_message = ab_message\<lparr>address := ascii ''a:c''\<rparr>"

lemma lost_lookup: "inner w = inner w_sub \<Longrightarrow> lookup std_deps (ascii ''a:c'') w = None"
  by (simp add: lookup_def lookup_route_def w_sub_def w_before_inner registry_eval)

theorem request_cleans_up_witness:
  "\<exists>w'. client_request std_deps (in_memory std_deps) False 2 (ascii ''me'') lost_message w_replies =
       (Done (Inl (RecipientNotFound (ascii ''a:c''))), w') \<and>
     rd_waiters (dispatchers w' 2) = rd_waiters (dispatchers w_replies 2)"
proof -
  have i: "inner w_replies = inner w_sub"
    by (simp add: w_replies_def reply_dispatcher_new_def fresh_def)
  have u: "is_utf8 (ascii ''a:c'')" by simp
  let ?m = "request_message (ascii ''me'') lost_message"
  have m: "address ?m = ascii ''a:c''" by (simp add: lost_message_def)
  obtain cell w1 where reg: "register_waiter std_deps 2 (message_id (header ?m)) w_replies = (Inr cell, w1)"
    by (simp add: register_waiter_def w_replies_eval Let_def)
  then have "inner w1 = inner w_sub"
    using i by (auto simp: register_waiter_def frame_simps fresh_def Let_def split: if_splits)
  then have "resolve_message (in_memory std_deps) ?m w1 = Inl (RecipientNotFound (ascii ''a:c''))"
    unfolding resolve_message_def m using lost_lookup u by (simp add: from_utf8_def resolve_def)
  then obtain w' where d: "client_request std_deps (in_memory std_deps) False 2 (ascii ''me'') lost_message w_replies =
       (Done (Inl (RecipientNotFound (ascii ''a:c''))), w')"
    using reg by (simp add: client_request_def request_begin_def Let_def)
  with request_cleans_up [of std_deps False 2 "ascii ''me''" lost_message w_replies] show ?thesis by blast
qed

theorem request_gets_reply_witness:
  "\<exists>w'. listener_step std_deps 2 w_replied = Some w' \<and>
     fst (request_poll std_deps (in_memory std_deps) True sample_request w') = Done (Inr ab_message)"
proof -
  have f: "rq_dispatcher sample_request = 2" "rq_id sample_request = sample_id"
      "rq_cell sample_request = 3" "rq_pc sample_request = ReqWaiting"
    by (simp_all add: sample_request_def)
  have "oneshots w_replied 3 = Some OsWait" by (simp add: w_replied_eval(4) w_waiting_eval(3))
  moreover have "map_of (rd_waiters (dispatchers w_replied 2)) sample_id = Some 3"
    by (simp add: w_replied_eval(3))
  ultimately show ?thesis
    using request_gets_reply [OF std.env_axioms, of sample_request w_replied OsWait ab_message
        "in_memory std_deps" True, unfolded f] w_replied_reachable w_replied_eval(2) by blast
qed

end
