(* ===== verification/Publisher.thy ===== *)
theory Publisher
  imports Requests
begin

text \<open>
  \<^verbatim>\<open>src/client/publisher.rs\<close>: a publisher caches the endpoint of its address. It is generic in the
  transport, as in the source; its correctness is proved once, inside the locale \<open>transport\<close>, and
  holds for the in-memory transport by the sublocale of theory \<open>Transport\<close>. Other tasks run between
  the critical sections of \<^verbatim>\<open>get_or_resolve_endpoint\<close> (the read lock, the resolution, and the upgradable
  lock with its two checks), so it takes the state at each of them, and the publisher at each lock;
  \<open>publisher_send\<close> and \<open>publisher_request\<close> are the calls in which nothing comes between them.
\<close>

section \<open>Operations\<close>

record 'e publisher =
  pub_address :: bytes
  pub_reply_address :: bytes
  pub_dispatcher :: nat
  pub_config :: broker_config
  pub_cache :: "'e option"

definition publisher_new :: "bytes \<Rightarrow> bytes \<Rightarrow> nat \<Rightarrow> broker_config \<Rightarrow> 'e publisher" where
  "publisher_new addr reply r cfg = \<lparr>pub_address = addr, pub_reply_address = reply,
     pub_dispatcher = r, pub_config = cfg, pub_cache = None\<rparr>"

text \<open>The cached endpoint, if there is one and it is valid.\<close>

definition cached_valid :: "('w, 'e, 'p) transport_ops \<Rightarrow> 'e publisher \<Rightarrow> 'w \<Rightarrow> 'e option" where
  "cached_valid T p w = (case pub_cache p of
     Some ep \<Rightarrow> if tr_is_valid T ep w then Some ep else None
   | None \<Rightarrow> None)"

text \<open>The section under the upgradable lock: checked at \<open>w1\<close>, checked again as a writer at \<open>w2\<close>.\<close>

definition store_endpoint ::
    "('w, 'e, 'p) transport_ops \<Rightarrow> 'e \<Rightarrow> 'w \<Rightarrow> 'w \<Rightarrow> 'e publisher \<Rightarrow> 'e \<times> 'e publisher" where
  "store_endpoint T resolved w1 w2 p = (case cached_valid T p w1 of
     Some ep \<Rightarrow> (ep, p)
   | None \<Rightarrow> (case cached_valid T p w2 of
       Some ep \<Rightarrow> (ep, p)
     | None \<Rightarrow> (resolved, p\<lparr>pub_cache := Some resolved\<rparr>)))"

text \<open>
  The first check runs in \<open>w1\<close> on the publisher \<open>p1\<close>, the resolution in \<open>w2\<close>, and the two checks under
  the second lock in \<open>w3\<close> and \<open>w4\<close> on \<open>p3\<close>: the cache may have been filled meanwhile by another task.
\<close>

definition get_or_resolve_endpoint ::
    "('w, 'e, 'p) transport_ops \<Rightarrow> 'w \<Rightarrow> 'w \<Rightarrow> 'w \<Rightarrow> 'w \<Rightarrow> 'e publisher \<Rightarrow> 'e publisher \<Rightarrow>
     (transport_error + 'e) \<times> 'e publisher" where
  "get_or_resolve_endpoint T w1 w2 w3 w4 p1 p3 = (case cached_valid T p1 w1 of
     Some ep \<Rightarrow> (Inr ep, p1)
   | None \<Rightarrow> (case tr_resolve T (pub_address p1) w2 of
       Inl e \<Rightarrow> (Inl e, p3)
     | Inr resolved \<Rightarrow> (let (ep, p') = store_endpoint T resolved w3 w4 p3 in (Inr ep, p'))))"

text \<open>With nothing in between.\<close>

definition endpoint_now ::
    "('w, 'e, 'p) transport_ops \<Rightarrow> 'e publisher \<Rightarrow> 'w \<Rightarrow> (transport_error + 'e) \<times> 'e publisher" where
  "endpoint_now T p w = get_or_resolve_endpoint T w w w w p p"

definition invalidate_cache :: "'e publisher \<Rightarrow> 'e publisher" where
  "invalidate_cache p = p\<lparr>pub_cache := None\<rparr>"

text \<open>The closure passed to \<^verbatim>\<open>map_err\<close>.\<close>

definition on_send_error :: "transport_error \<Rightarrow> 'e publisher \<Rightarrow> 'e publisher" where
  "on_send_error e p = (if e = ConnectionClosed then invalidate_cache p else p)"

definition publisher_send ::
    "('w, 'e, 'p) transport_ops \<Rightarrow> message \<Rightarrow> 'e publisher \<Rightarrow> 'w \<Rightarrow>
     (transport_error + 'w) poll \<times> 'e publisher" where
  "publisher_send T m p w = (case endpoint_now T p w of
     (Inl e, p') \<Rightarrow> (Ready (Inl e), p')
   | (Inr ep, p') \<Rightarrow> (case tr_send_to T ep m w of
       Ready (Inl e) \<Rightarrow> (Ready (Inl e), on_send_error e p')
     | sent \<Rightarrow> (sent, p')))"

text \<open>
  \<^verbatim>\<open>Publisher::request\<close>: the endpoint first, then the waiter, then the send; the cache is
  invalidated when the send reports a closed connection.
\<close>

definition publisher_request ::
    "('t, 'c, 'd, 'o) deps \<Rightarrow> (('t, 'c, 'd, 'o) world, 'e, 'p) transport_ops \<Rightarrow> bool \<Rightarrow> message \<Rightarrow>
     'e publisher \<Rightarrow> ('t, 'c, 'd, 'o) world \<Rightarrow>
     ('p request_status \<times> ('t, 'c, 'd, 'o) world) \<times> 'e publisher" where
  "publisher_request E T elapsed m p w = (case endpoint_now T p w of
     (Inl e, p') \<Rightarrow> ((Done (Inl e), w), p')
   | (Inr ep, p') \<Rightarrow>
       (let m' = request_message (pub_reply_address p) m;
            res = request_begin E T elapsed (pub_dispatcher p) (\<lambda>_. Inr ep) m' w
        in (res, case register_waiter E (pub_dispatcher p) (message_id (header m')) w of
              (Inr _, w1) \<Rightarrow> (case tr_send_to T ep m' w1 of
                 Ready (Inl e) \<Rightarrow> on_send_error e p'
               | _ \<Rightarrow> p')
            | (Inl _, _) \<Rightarrow> p')))"

text \<open>A later poll of a request that is suspended in its send.\<close>

definition publisher_request_poll ::
    "('t, 'c, 'd, 'o) deps \<Rightarrow> (('t, 'c, 'd, 'o) world, 'e, 'p) transport_ops \<Rightarrow> bool \<Rightarrow> 'p request \<Rightarrow>
     'e publisher \<Rightarrow> ('t, 'c, 'd, 'o) world \<Rightarrow>
     ('p request_status \<times> ('t, 'c, 'd, 'o) world) \<times> 'e publisher" where
  "publisher_request_poll E T elapsed rq p w =
     (request_poll E T elapsed rq w,
      case rq_pc rq of
        ReqSending q m \<Rightarrow> (case tr_resume T q m w of
           Ready (Inl e) \<Rightarrow> on_send_error e p
         | _ \<Rightarrow> p)
      | ReqWaiting \<Rightarrow> p)"

section \<open>Caching is transparent\<close>

text \<open>The cached endpoint was resolved for the publisher's address in an earlier state.\<close>

definition cache_ok ::
    "('w, 'e, 'p) transport_ops \<Rightarrow> (bytes \<Rightarrow> 'e \<Rightarrow> 'w \<Rightarrow> 'w \<Rightarrow> bool) \<Rightarrow> 'e publisher \<Rightarrow> 'w \<Rightarrow> bool" where
  "cache_ok T later p w \<longleftrightarrow> (\<forall>ep. pub_cache p = Some ep \<longrightarrow>
     (\<exists>w0. tr_resolve T (pub_address p) w0 = Inr ep \<and> later (pub_address p) ep w0 w))"

context transport
begin

lemma cached_valid_resolve:
  assumes "cache_ok T later p w" and "cached_valid T p w = Some ep"
  shows "tr_resolve T (pub_address p) w = Inr ep"
proof -
  have c: "pub_cache p = Some ep" "tr_is_valid T ep w"
    using assms(2) by (auto simp: cached_valid_def split: option.splits if_splits)
  then obtain w0 where "tr_resolve T (pub_address p) w0 = Inr ep" "later (pub_address p) ep w0 w"
    using assms(1) by (auto simp: cache_ok_def)
  from valid_current [OF this c(2)] show ?thesis .
qed

lemma get_or_resolve_transparent:
  assumes "cache_ok T later p w"
  shows "fst (endpoint_now T p w) = tr_resolve T (pub_address p) w"
  using cached_valid_resolve [OF assms]
  by (cases "cached_valid T p w"; cases "tr_resolve T (pub_address p) w")
    (auto simp: endpoint_now_def get_or_resolve_endpoint_def store_endpoint_def)

lemma get_or_resolve_cache_ok:
  assumes "cache_ok T later p w" and "good (pub_address p) w"
  shows "cache_ok T later (snd (endpoint_now T p w)) w"
proof (cases "cached_valid T p w")
  case None
  show ?thesis
  proof (cases "tr_resolve T (pub_address p) w")
    case (Inr ep)
    from resolved_now [OF this assms(2)] Inr None show ?thesis
      by (auto simp: endpoint_now_def get_or_resolve_endpoint_def store_endpoint_def cache_ok_def)
  qed (use None assms(1) in \<open>simp add: endpoint_now_def get_or_resolve_endpoint_def\<close>)
qed (use assms(1) in \<open>simp add: endpoint_now_def get_or_resolve_endpoint_def\<close>)

lemma get_or_resolve_address [simp]:
  "pub_address (snd (endpoint_now T p w)) = pub_address p"
  by (simp add: endpoint_now_def get_or_resolve_endpoint_def store_endpoint_def split: option.split sum.split)

lemma publisher_send_cache_ok:
  assumes "cache_ok T later p w" and "good (pub_address p) w"
  shows "cache_ok T later (snd (publisher_send T m p w)) w"
proof -
  have "cache_ok T later (snd (endpoint_now T p w)) w"
    using get_or_resolve_cache_ok [OF assms] .
  then show ?thesis
    by (auto simp: publisher_send_def on_send_error_def invalidate_cache_def split_beta
        split: sum.split poll.split) (auto simp: cache_ok_def)
qed

text \<open>A publisher does what a client without a cache does at the publisher's address.\<close>

lemma publisher_send_transparent:
  assumes "cache_ok T later p w"
  shows "fst (publisher_send T m p w) = (case tr_resolve T (pub_address p) w of
     Inl e \<Rightarrow> Ready (Inl e) | Inr ep \<Rightarrow> tr_send_to T ep m w)"
proof -
  have "publisher_send T m p w = (case fst (endpoint_now T p w) of
      Inl e \<Rightarrow> (Ready (Inl e), snd (endpoint_now T p w))
    | Inr ep \<Rightarrow> (case tr_send_to T ep m w of
        Ready (Inl e) \<Rightarrow> (Ready (Inl e), on_send_error e (snd (endpoint_now T p w)))
      | sent \<Rightarrow> (sent, snd (endpoint_now T p w))))"
    by (simp add: publisher_send_def split_beta split: sum.split)
  then show ?thesis
    by (simp add: get_or_resolve_transparent [OF assms] split: sum.split poll.split)
qed

text \<open>
  The result of an interrupted call is what a resolution gives at one of the moments of the call, and
  what it leaves in the cache is fit for the next one.
\<close>

lemma get_or_resolve_moments:
  assumes "cache_ok T later p1 w1" and "cache_ok T later p3 w3" and "cache_ok T later p3 w4"
    and "pub_address p3 = pub_address p1"
  shows "\<exists>w\<in>{w1, w2, w3, w4}. fst (get_or_resolve_endpoint T w1 w2 w3 w4 p1 p3) = tr_resolve T (pub_address p1) w"
  using cached_valid_resolve [OF assms(1)] cached_valid_resolve [OF assms(2)] cached_valid_resolve [OF assms(3)] assms(4)
  by (cases "cached_valid T p1 w1"; cases "cached_valid T p3 w3"; cases "cached_valid T p3 w4"; cases "tr_resolve T (pub_address p1) w2")
    (auto simp: get_or_resolve_endpoint_def store_endpoint_def)

lemma get_or_resolve_moments_cache:
  assumes "cache_ok T later p3 w4" and "pub_address p3 = pub_address p1" and "cached_valid T p1 w1 = None"
    and "\<And>ep. tr_resolve T (pub_address p1) w2 = Inr ep \<Longrightarrow> later (pub_address p1) ep w2 w4"
  shows "cache_ok T later (snd (get_or_resolve_endpoint T w1 w2 w3 w4 p1 p3)) w4"
  using assms
  by (cases "cached_valid T p3 w3"; cases "cached_valid T p3 w4"; cases "tr_resolve T (pub_address p1) w2")
    (auto simp: get_or_resolve_endpoint_def store_endpoint_def cache_ok_def)

end

section \<open>Properties\<close>

text \<open>
  C19. A publisher's cache is invisible: a send through a publisher has exactly the result of resolving
  the publisher's address afresh and sending to that endpoint, whatever was registered or
  unregistered since the endpoint was cached; and the send keeps the cache fit for the next one.
\<close>

theorem publisher_transparent:
  assumes "env E queue cap txs rx rqueue rcap rtxs rrx cstate"
    and "cache_ok (in_memory E) (later_state E) p w"
  shows "fst (publisher_send (in_memory E) m p w) = (case resolve E (pub_address p) w of
      Inl e \<Rightarrow> Ready (Inl e) | Inr ep \<Rightarrow> endpoint_send E ep m w) \<and>
    (registry_reachable E w \<and> concrete (pub_address p) \<longrightarrow>
      cache_ok (in_memory E) (later_state E) (snd (publisher_send (in_memory E) m p w)) w)"
proof -
  have t: "transport (in_memory E) (good_address E) (later_state E)"
    using env.in_memory_transport [OF assms(1)] .
  show ?thesis
    using transport.publisher_send_transparent [OF t assms(2), of m]
      transport.publisher_send_cache_ok [OF t assms(2), of m]
    by (simp add: good_address_def split: sum.split)
qed

text \<open>
  A publisher shared by tasks is linearizable: whatever other tasks do between the critical sections,
  with the registry or with the same publisher, the endpoint it finds is what a fresh resolution of its
  address gives at one of the moments of the call, and the cache stays fit for later sends.
\<close>

theorem publisher_interleaved:
  assumes "env E queue cap txs rx rqueue rcap rtxs rrx cstate" and "pub_address p3 = pub_address p1"
    and "cache_ok (in_memory E) (later_state E) p1 w1" and "cache_ok (in_memory E) (later_state E) p3 w3"
    and "cache_ok (in_memory E) (later_state E) p3 w4"
    and "\<And>ep. resolve E (pub_address p1) w2 = Inr ep \<Longrightarrow> later_state E (pub_address p1) ep w2 w4"
  shows "(\<exists>w\<in>{w1, w2, w3, w4}. fst (get_or_resolve_endpoint (in_memory E) w1 w2 w3 w4 p1 p3) =
      resolve E (pub_address p1) w) \<and>
    (cached_valid (in_memory E) p1 w1 = None \<longrightarrow> cache_ok (in_memory E) (later_state E)
      (snd (get_or_resolve_endpoint (in_memory E) w1 w2 w3 w4 p1 p3)) w4)"
proof -
  have t: "transport (in_memory E) (good_address E) (later_state E)"
    using env.in_memory_transport [OF assms(1)] .
  show ?thesis
    using transport.get_or_resolve_moments [OF t assms(3-5,2), of w2]
      transport.get_or_resolve_moments_cache [OF t assms(5,2), of w1 w2 w3] assms(6) by simp
qed

text \<open>
  A publisher heals itself: whenever a send reports a closed connection the cached endpoint is
  discarded, so that the next send resolves the address again; no other outcome discards it.
\<close>

theorem publisher_invalidates:
  "let (res, p') = publisher_send (in_memory E) m p w
   in if res = Ready (Inl ConnectionClosed) then pub_cache p' = None
      else p' = snd (endpoint_now (in_memory E) p w)"
proof (cases "fst (endpoint_now (in_memory E) p w)")
  case (Inl e)
  then have "e \<noteq> ConnectionClosed"
    by (auto simp: endpoint_now_def get_or_resolve_endpoint_def resolve_def split_beta split: option.splits sum.splits)
  with Inl show ?thesis by (simp add: publisher_send_def split_beta)
next
  case (Inr ep)
  then show ?thesis
    by (auto simp: publisher_send_def split_beta on_send_error_def invalidate_cache_def split: poll.split sum.split)
qed

text \<open>
  C38. A publisher delivers to the owner of the publisher's address, whatever address the message
  carries: the message is appended to the queue of the one subscription that receives the
  publisher's address, and its own address field plays no part.
\<close>

theorem publisher_delivers:
  assumes "env E queue cap txs rx rqueue rcap rtxs rrx cstate"
    and "cache_ok (in_memory E) (later_state E) p w"
    and "registry_reachable E w" and "concrete (pub_address p)"
    and "routes E w k = Some t" and "covers k (pub_address p)"
    and "slot_sender (slots w (target_slot w t)) = Some ch" and "chans w ch = Some c"
    and "rx c" and "length (queue c) < cap c"
  shows "\<exists>c'. fst (publisher_send (in_memory E) m p w) = Ready (Inr (w\<lparr>chans := (chans w)(ch \<mapsto> c')\<rparr>)) \<and>
    queue c' = queue c @ [m]"
proof -
  have "lookup E (pub_address p) w = Some t"
    using env.lookup_routes [OF assms(1,3,4)] assms(5,6) by blast
  then have "fst (publisher_send (in_memory E) m p w) = target_send E t m w"
    using transport.publisher_send_transparent [OF env.in_memory_transport [OF assms(1)] assms(2), of m]
    by (simp add: resolve_def endpoint_send_def endpoint_new_def)
  moreover have "target_send E t m w = slot_send E (target_slot w t) m w"
    by (simp add: target_send_def target_slot_def split: route_target.split)
  ultimately show ?thesis
    using assms(7,10)
    by (cases rule: env.chan_send_cases [OF assms(1,8,9), of m]) (auto simp: slot_send_def)
qed

section \<open>Witnesses\<close>

definition sample_publisher :: "endpoint publisher" where
  "sample_publisher = publisher_new (ascii ''a:b'') (ascii ''me'') 2 broker_config_default"

lemma sample_cache: "cache_ok T later sample_publisher w"
  by (simp add: cache_ok_def sample_publisher_def publisher_new_def)

lemma sample_pub_address: "pub_address sample_publisher = ascii ''a:b''"
  by (simp add: sample_publisher_def publisher_new_def)

theorem publisher_transparent_witness:
  "fst (publisher_send (in_memory std_deps) ab_message sample_publisher w_empty) =
     Ready (Inl (RecipientNotFound (ascii ''a:b'')))"
proof -
  have "lookup std_deps (ascii ''a:b'') w_empty = None"
    by (simp add: lookup_def lookup_route_def registry_eval)
  then show ?thesis
    using publisher_transparent [OF std.env_axioms sample_cache, of ab_message w_empty]
    by (simp add: sample_pub_address resolve_def del: ascii_Cons)
qed

theorem publisher_delivers_witness:
  "\<exists>c'. fst (publisher_send (in_memory std_deps) lost_message sample_publisher w_sub) =
      Ready (Inr (w_sub\<lparr>chans := (chans w_sub)(0 \<mapsto> c')\<rparr>)) \<and> bq_items c' = [lost_message]"
proof -
  have c: "concrete (pub_address sample_publisher)" and cv: "covers (ascii ''a:b'') (pub_address sample_publisher)"
    using ab_concrete ab_covers by (simp_all add: sample_pub_address)
  show ?thesis
    using publisher_delivers [OF std.env_axioms sample_cache w_sub_reachable c w_sub_eval(2) cv _ w_sub_eval(4),
        of lost_message] w_sub_eval(3)
    by (auto simp: target_slot_def)
qed

end
