(* ===== verification/Client.thy ===== *)
theory Client
  imports Publisher
begin

text \<open>
  \<^verbatim>\<open>src/client/subscriber.rs\<close>, \<^verbatim>\<open>src/client/mod.rs\<close>, \<^verbatim>\<open>src/broker/mod.rs\<close> and \<^verbatim>\<open>src/error.rs\<close>:
  subscriptions and their handles, the client facade and the broker that creates clients. A call
  that creates a channel with a bad capacity panics, which is the result \<open>None\<close>. The lemmas show that a
  subscription receives what is sent to its address, that dropping its handle frees the address,
  and how subscriptions of different policies share an address.
\<close>

section \<open>Subscriptions\<close>

datatype subscription_handle = HandleExclusive bytes nat | HandleLoadBalanced bytes nat

definition handle_drop ::
    "('t, 'c, 'd, 'o) deps \<Rightarrow> subscription_handle \<Rightarrow> ('t, 'c, 'd, 'o) world \<Rightarrow> ('t, 'c, 'd, 'o) world" where
  "handle_drop E h w = (case h of
     HandleExclusive addr s \<Rightarrow> snd (unregister E addr s w)
   | HandleLoadBalanced addr g \<Rightarrow> remove_consumer E g w)"

text \<open>A pull subscriber holds a reference to the request sender of its group.\<close>

datatype subscriber_mode = Push nat | Pull nat nat

record subscriber =
  sub_mode :: subscriber_mode
  sub_address :: bytes

definition subscriber_drop ::
    "('t, 'c, 'd, 'o) deps \<Rightarrow> subscriber \<Rightarrow> ('t, 'c, 'd, 'o) world \<Rightarrow> ('t, 'c, 'd, 'o) world" where
  "subscriber_drop E sub w = (case sub_mode sub of
     Push ch \<Rightarrow> chan_drop_rx E ch w
   | Pull r g \<Rightarrow> req_sender_release E g w)"

text \<open>
  \<^verbatim>\<open>Subscriber::recv\<close>, polled once: a push subscriber polls its channel; a pull subscriber first gets
  its token into the request channel and then awaits the cell.
\<close>

datatype recv_pc = RecvStart | RecvAwait nat

definition cell_poll ::
    "('t, 'c, 'd, 'o) deps \<Rightarrow> nat \<Rightarrow> ('t, 'c, 'd, 'o) world \<Rightarrow>
     message option poll \<times> recv_pc \<times> ('t, 'c, 'd, 'o) world" where
  "cell_poll E tok w = (case oneshots w tok of
     None \<Rightarrow> (Pending, RecvAwait tok, w)
   | Some s \<Rightarrow> (os_poll (d_oneshots E) s, RecvAwait tok, w))"

definition recv_poll ::
    "('t, 'c, 'd, 'o) deps \<Rightarrow> subscriber \<Rightarrow> recv_pc \<Rightarrow> ('t, 'c, 'd, 'o) world \<Rightarrow>
     message option poll \<times> recv_pc \<times> ('t, 'c, 'd, 'o) world" where
  "recv_poll E sub pc w = (case sub_mode sub of
     Push ch \<Rightarrow> (case chans w ch of
       None \<Rightarrow> (Ready None, pc, w)
     | Some c \<Rightarrow> (case receiver_recv (d_msgs E) c of
         Pending \<Rightarrow> (Pending, pc, w)
       | Ready None \<Rightarrow> (Ready None, pc, w)
       | Ready (Some (m, c')) \<Rightarrow> (Ready (Some m), pc, w\<lparr>chans := (chans w)(ch \<mapsto> c')\<rparr>)))
   | Pull r g \<Rightarrow> (case pc of
       RecvAwait tok \<Rightarrow> cell_poll E tok w
     | RecvStart \<Rightarrow> (case reqs w r of
         None \<Rightarrow> (Ready None, pc, w)
       | Some d \<Rightarrow> (case request_sender_request (d_reqs E) (d_oneshots E) (next_id w) d of
           Pending \<Rightarrow> (Pending, RecvStart, w)
         | Ready (Inl _) \<Rightarrow> (Ready None, RecvStart, w)
         | Ready (Inr (d', cell)) \<Rightarrow> cell_poll E (next_id w)
             (fresh w\<lparr>reqs := (reqs w)(r \<mapsto> d'), oneshots := (oneshots w)(next_id w \<mapsto> cell)\<rparr>)))))"

definition subscriber_try_recv ::
    "('t, 'c, 'd, 'o) deps \<Rightarrow> subscriber \<Rightarrow> ('t, 'c, 'd, 'o) world \<Rightarrow>
     (try_recv_error + message) \<times> ('t, 'c, 'd, 'o) world" where
  "subscriber_try_recv E sub w = (case sub_mode sub of
     Push ch \<Rightarrow> (case chans w ch of
       None \<Rightarrow> (Inl RecvDisconnected, w)
     | Some c \<Rightarrow> (case receiver_try_recv (d_msgs E) c of
         Inl e \<Rightarrow> (Inl e, w)
       | Inr (m, c') \<Rightarrow> (Inr m, w\<lparr>chans := (chans w)(ch \<mapsto> c')\<rparr>)))
   | Pull r g \<Rightarrow> (Inl Empty, w))"

section \<open>The client\<close>

record client =
  cl_address :: bytes
  cl_handle :: subscription_handle
  cl_dispatcher :: nat
  cl_config :: broker_config

text \<open>
  A channel, its slot and an exclusive target, registered under \<open>addr\<close>; when the registration is
  refused both ends of the channel go out of scope.
\<close>

definition bind_exclusive ::
    "('t, 'c, 'd, 'o) deps \<Rightarrow> usize \<Rightarrow> bytes \<Rightarrow> ('t, 'c, 'd, 'o) world \<Rightarrow>
     ((registry_error + nat \<times> nat) \<times> ('t, 'c, 'd, 'o) world) option" where
  "bind_exclusive E capacity addr w =
     (case create_channel (d_msgs E) (unat capacity) of
        None \<Rightarrow> None
      | Some c \<Rightarrow>
        (let (ch, w1) = chan_alloc c w; (s, w2) = slot_new ch w1
         in case register E addr (new_exclusive s) w2 of
              (Inl e, w3) \<Rightarrow> Some (Inl e, chan_drop_rx E ch (chan_drop_tx E ch w3))
            | (Inr _, w3) \<Rightarrow> Some (Inr (ch, s), w3)))"

definition client_new ::
    "('t, 'c, 'd, 'o) deps \<Rightarrow> broker_config \<Rightarrow> client_config \<Rightarrow> bytes \<Rightarrow> ('t, 'c, 'd, 'o) world \<Rightarrow>
     ((registry_error + client) \<times> ('t, 'c, 'd, 'o) world) option" where
  "client_new E bcfg cfg addr w = (case bind_exclusive E (reply_channel_capacity cfg) addr w of
     None \<Rightarrow> None
   | Some (Inl e, w1) \<Rightarrow> Some (Inl e, w1)
   | Some (Inr (ch, s), w1) \<Rightarrow>
       (let (r, w2) = reply_dispatcher_new ch w1
        in Some (Inr \<lparr>cl_address = addr, cl_handle = HandleExclusive addr s, cl_dispatcher = r,
                      cl_config = bcfg\<rparr>, w2)))"

definition subscribe ::
    "('t, 'c, 'd, 'o) deps \<Rightarrow> bytes \<Rightarrow> subscriber_config \<Rightarrow> ('t, 'c, 'd, 'o) world \<Rightarrow>
     ((registry_error + subscriber \<times> subscription_handle) \<times> ('t, 'c, 'd, 'o) world) option" where
  "subscribe E addr cfg w = (case routing_policy cfg of
     Exclusive \<Rightarrow> (case bind_exclusive E (channel_capacity cfg) addr w of
       None \<Rightarrow> None
     | Some (Inl e, w1) \<Rightarrow> Some (Inl e, w1)
     | Some (Inr (ch, s), w1) \<Rightarrow>
         Some (Inr (\<lparr>sub_mode = Push ch, sub_address = addr\<rparr>, HandleExclusive addr s), w1))
   | LoadBalancedPolicy \<Rightarrow>
       (case get_existing_or_register E addr (lb_factory E (channel_capacity cfg) addr) w of
          None \<Rightarrow> None
        | Some (Inl e, w1) \<Rightarrow> Some (Inl e, w1)
        | Some (Inr result, w1) \<Rightarrow>
            (let target = (case result of Registered t \<Rightarrow> t | AlreadyExists t \<Rightarrow> t)
             in case target_load_balanced_group target of
                  None \<Rightarrow> Some (Inl (PolicyMismatch addr), w1)
                | Some g \<Rightarrow> (let (r, w2) = group_subscribe g w1
                    in Some (Inr (\<lparr>sub_mode = Pull r g, sub_address = addr\<rparr>, HandleLoadBalanced addr g), w2)))))"

definition client_publisher :: "client \<Rightarrow> bytes \<Rightarrow> endpoint publisher" where
  "client_publisher cl addr = publisher_new addr (cl_address cl) (cl_dispatcher cl) (cl_config cl)"

definition client_send ::
    "('t, 'c, 'd, 'o) deps \<Rightarrow> message \<Rightarrow> ('t, 'c, 'd, 'o) world \<Rightarrow>
     (transport_error + ('t, 'c, 'd, 'o) world) poll" where
  "client_send E m w = transport_send (in_memory E) m w"

text \<open>
  Dropping a client drops its handle first, and its reference to the dispatcher then; the dispatcher
  goes with its last reference (publishers hold references too).
\<close>

definition client_drop ::
    "('t, 'c, 'd, 'o) deps \<Rightarrow> bool \<Rightarrow> client \<Rightarrow> ('t, 'c, 'd, 'o) world \<Rightarrow> ('t, 'c, 'd, 'o) world" where
  "client_drop E last_reference cl w =
     (let w1 = handle_drop E (cl_handle cl) w
      in if last_reference then reply_dispatcher_drop E (cl_dispatcher cl) w1 else w1)"

section \<open>The broker\<close>

datatype broker_error =
    ChannelClosed message
  | ChannelFull message
  | RequestClosed
  | RegistryError registry_error
  | ProtocolError protocol_error

text \<open>
  A broker is its configuration and a registry of its own. \<open>broker_new\<close> returns both; the state of a
  process holds the registry of its one broker, and \<open>broker_world\<close> is a state with that registry.
\<close>

record broker =
  br_config :: broker_config

definition broker_new :: "('t, 'c, 'd, 'o) deps \<Rightarrow> broker_config \<Rightarrow> broker \<times> 't registry_inner" where
  "broker_new E cfg = (\<lparr>br_config = cfg\<rparr>, registry_new (d_radix E))"

definition broker_default :: "('t, 'c, 'd, 'o) deps \<Rightarrow> broker \<times> 't registry_inner" where
  "broker_default E = broker_new E broker_config_default"

definition broker_world :: "'t registry_inner \<Rightarrow> ('t, 'c, 'd, 'o) world \<Rightarrow> ('t, 'c, 'd, 'o) world" where
  "broker_world reg w = w\<lparr>inner := reg\<rparr>"

definition broker_client ::
    "('t, 'c, 'd, 'o) deps \<Rightarrow> broker \<Rightarrow> client_config \<Rightarrow> bytes \<Rightarrow> ('t, 'c, 'd, 'o) world \<Rightarrow>
     ((broker_error + client) \<times> ('t, 'c, 'd, 'o) world) option" where
  "broker_client E b cfg addr w = (case client_new E (br_config b) cfg addr w of
     None \<Rightarrow> None
   | Some (Inl e, w') \<Rightarrow> Some (Inl (RegistryError e), w')
   | Some (Inr cl, w') \<Rightarrow> Some (Inr cl, w'))"

section \<open>Lemmas\<close>

text \<open>The state in which \<open>bind_exclusive\<close> registers.\<close>

definition bind_state :: "'c \<Rightarrow> ('t, 'c, 'd, 'o) world \<Rightarrow> ('t, 'c, 'd, 'o) world" where
  "bind_state c w = snd (slot_new (next_id w) (snd (chan_alloc c w)))"

lemma bind_state_simps [simp]:
  "inner (bind_state c w) = inner w" "chans (bind_state c w) = (chans w)(next_id w \<mapsto> c)"
  "slots (bind_state c w) =
     (slots w)(Suc (next_id w) := \<lparr>slot_sender = Some (next_id w), slot_version = 1\<rparr>)"
  "groups (bind_state c w) = groups w"
  by (simp_all add: bind_state_def slot_new_def chan_alloc_def fresh_def)

lemma bind_exclusive_eq:
  "bind_exclusive E n a w = (case create_channel (d_msgs E) (unat n) of
     None \<Rightarrow> None
   | Some c \<Rightarrow> (case register E a (Single (Suc (next_id w))) (bind_state c w) of
       (Inl e, w3) \<Rightarrow> Some (Inl e, chan_drop_rx E (next_id w) (chan_drop_tx E (next_id w) w3))
     | (Inr _, w3) \<Rightarrow> Some (Inr (next_id w, Suc (next_id w)), w3)))"
  by (simp add: bind_exclusive_def bind_state_def slot_new_def chan_alloc_def fresh_def new_exclusive_def
      split: option.split prod.split sum.split)

lemma register_frame:
  "chans (snd (register E a t w)) = chans w" "slots (snd (register E a t w)) = slots w"
  "groups (snd (register E a t w)) = groups w"
  by (simp_all add: register_def split: sum.split lookup_result.split)

lemma bind_exclusive_Inr:
  assumes "bind_exclusive E n a w = Some (Inr (ch, s), w')"
  obtains c where "create_channel (d_msgs E) (unat n) = Some c" "ch = next_id w" "s = Suc ch"
    "register E a (Single s) (bind_state c w) = (Inr (), w')"
    "chans w' = (chans w)(ch \<mapsto> c)" "slots w' = (slots w)(s := \<lparr>slot_sender = Some ch, slot_version = 1\<rparr>)"
proof -
  obtain c where c: "create_channel (d_msgs E) (unat n) = Some c" "ch = next_id w" "s = Suc ch"
      "register E a (Single s) (bind_state c w) = (Inr (), w')"
    using assms by (auto simp: bind_exclusive_eq split: option.splits prod.splits sum.splits)
  then show thesis
    using that [of c] register_frame [of E a "Single s" "bind_state c w"] by simp
qed

context env
begin

lemma bind_state_reachable: "registry_reachable E w \<Longrightarrow> registry_reachable E (bind_state c w)"
  by (erule reach_step) (rule step_other, simp)

lemma bind_exclusive_reachable:
  assumes "registry_reachable E w" and "is_utf8 a" and "bind_exclusive E n a w = Some (Inr (ch, s), w')"
  shows "registry_reachable E w'"
proof -
  obtain c where "register E a (Single s) (bind_state c w) = (Inr (), w')"
    using bind_exclusive_Inr [OF assms(3)] by metis
  from step_register [OF assms(2) this] show ?thesis
    using reach_step [OF bind_state_reachable [OF assms(1)]] by blast
qed

text \<open>A registration adds a route that receives exactly the new key.\<close>

lemma register_routes:
  assumes "registry_ok (d_radix E) (inner w)" and "register E a t w = (Inr (), w')"
  shows "routes E w' = (routes E w)(a \<mapsto> t)"
  using fst_register_free [OF assms(2)] tree.find_route_insert [OF assms(1)]
  by (auto simp: routes_def fun_eq_iff)

lemma bind_exclusive_routes:
  assumes "registry_reachable E w" and "bind_exclusive E n a w = Some (Inr (ch, s), w')"
  shows "routes E w' = (routes E w)(a \<mapsto> Single s)"
proof -
  obtain c where "register E a (Single s) (bind_state c w) = (Inr (), w')"
    using bind_exclusive_Inr [OF assms(2)] by metis
  moreover have "registry_ok (d_radix E) (inner (bind_state c w))"
    using registry_reachable_ok [OF tree.route_radix_axioms] assms(1) by simp
  moreover have "routes E (bind_state c w) = routes E w" by (simp add: routes_def fun_eq_iff)
  ultimately show ?thesis using register_routes by metis
qed

lemma send_to_slot:
  assumes "registry_reachable E w" and "concrete (address m)" and "is_utf8 (address m)"
    and "routes E w k = Some (Single s)" and "covers k (address m)"
    and "slot_sender (slots w s) = Some ch" and "chans w ch = Some c" and "rx c" and "length (queue c) < cap c"
  obtains c' where "client_send E m w = Ready (Inr (w\<lparr>chans := (chans w)(ch \<mapsto> c')\<rparr>))"
    "queue c' = queue c @ [m]" "rx c'"
proof -
  have "lookup E (address m) w = Some (Single s)" using lookup_routes assms(1,2,4,5) by blast
  then have "client_send E m w = slot_send E s m w"
    using assms(3) by (simp add: client_send_def transport_send_def resolve_def endpoint_send_def
        endpoint_new_def from_utf8_def target_send_def)
  then show thesis
    using assms(6,9) that
    by (cases rule: chan_send_cases [OF assms(7,8), of m]) (auto simp: slot_send_def)
qed

end

context env
begin

lemma bind_exclusive_free:
  assumes "registry_reachable E w" and "is_utf8 a" and "concrete a" and "\<not> has_route E a w" and "capacity_ok n"
  obtains ch s w' c where "bind_exclusive E n a w = Some (Inr (ch, s), w')" "registry_reachable E w'"
    "routes E w' = (routes E w)(a \<mapsto> Single s)" "slot_sender (slots w' s) = Some ch" "chans w' ch = Some c"
    "queue c = []" "cap c = unat n" "rx c"
proof -
  obtain c where c: "create_channel (d_msgs E) (unat n) = Some c" "queue c = []" "cap c = unat n" "rx c"
    using msgs.create_channel_ok [OF assms(5)] by blast
  have "registry_ok (d_radix E) (inner w)" using registry_reachable_ok [OF tree.route_radix_axioms assms(1)] .
  then have "check_address_free (d_radix E) (inner (bind_state c w)) a = Inr NotFound"
    using tree.check_free_concrete [OF _ assms(3)] assms(4) by (simp add: has_route_def lookup_def)
  then obtain w' where "register E a (Single (Suc (next_id w))) (bind_state c w) = (Inr (), w')"
    using register_ok_iff by (metis prod.collapse)
  then have b: "bind_exclusive E n a w = Some (Inr (next_id w, Suc (next_id w)), w')"
    using c(1) by (simp add: bind_exclusive_eq)
  have "chans w' (next_id w) = Some c" "slot_sender (slots w' (Suc (next_id w))) = Some (next_id w)"
    using bind_exclusive_Inr [OF b] c(1) by fastforce+
  then show thesis
    using that [OF b bind_exclusive_reachable [OF assms(1,2) b] bind_exclusive_routes [OF assms(1) b]] c by blast
qed

end

section \<open>Properties\<close>

text \<open>
  C1. Publish and subscribe work end to end: on an address no subscription receives, an exclusive
  subscription with any configuration from the builders succeeds, a message sent to the address is
  accepted at once, and the next receive of the subscriber returns exactly that message.
\<close>

theorem subscription_receives:
  assumes "env E queue cap txs rx rqueue rcap rtxs rrx cstate" and "registry_reachable E w"
    and "is_utf8 (address m)" and "concrete (address m)" and "\<not> has_route E (address m) w"
    and "built_subscriber cfg" and "routing_policy cfg = Exclusive"
  shows "\<exists>sub h w1 w2. subscribe E (address m) cfg w = Some (Inr (sub, h), w1) \<and>
    client_send E m w1 = Ready (Inr w2) \<and> fst (recv_poll E sub RecvStart w2) = Ready (Some m)"
proof -
  note ms = env.axioms(1) [OF assms(1)]
  obtain ch s w1 c where b: "bind_exclusive E (channel_capacity cfg) (address m) w = Some (Inr (ch, s), w1)"
      and r: "registry_reachable E w1" "routes E w1 = (routes E w)(address m \<mapsto> Single s)"
      and w1: "slot_sender (slots w1 s) = Some ch" "chans w1 ch = Some c"
      and c: "queue c = []" "cap c = unat (channel_capacity cfg)" "rx c"
    using env.bind_exclusive_free [OF assms(1-5) built_subscriber_ok [OF assms(6)]] by metis
  have "routes E w1 (address m) = Some (Single s)" using r(2) by simp
  moreover have "covers (address m) (address m)" using assms(4) by (simp add: covers_def concrete_wildcard)
  moreover have "length (queue c) < cap c"
    using c built_subscriber_ok [OF assms(6)] by (simp add: capacity_ok_def)
  ultimately obtain c' where s: "client_send E m w1 = Ready (Inr (w1\<lparr>chans := (chans w1)(ch \<mapsto> c')\<rparr>))"
      "queue c' = queue c @ [m]" "rx c'"
    using env.send_to_slot [OF assms(1) r(1) assms(4,3) _ _ w1 c(3)] by metis
  obtain c'' where "receiver_recv (d_msgs E) c' = Ready (Some (m, c''))"
    using mpsc.mp_recv_item [OF ms s(3)] s(2) c(1) by (fastforce simp: receiver_recv_def)
  then show ?thesis using assms(7) b s(1) by (simp add: subscribe_def recv_poll_def)
qed

text \<open>
  Dropping the handle of an exclusive subscription releases the address at once: no message to
  it is routed any more, it can be registered again, and the routes of all other addresses are
  unchanged. A handle whose address has since been taken by another subscription does nothing.
\<close>

theorem exclusive_handle_drop:
  assumes "env E queue cap txs rx rqueue rcap rtxs rrx cstate" and "registry_reachable E w"
    and "concrete a" and "routes E w a = Some (Single owner)"
  shows "if s = owner then
      (let w' = handle_drop E (HandleExclusive a s) w
       in \<not> has_route E a w' \<and> fst (register E a t w') = Inr () \<and>
          (\<forall>b. concrete b \<and> b \<noteq> a \<longrightarrow> lookup E b w' = lookup E b w))
    else handle_drop E (HandleExclusive a s) w = w"
proof (cases "s = owner")
  case True
  note tr = env.axioms(4) [OF assms(1)]
  have f: "find_route (d_radix E) a (inner w) = Some (Single s)" using assms(4) True by (simp add: routes_def)
  have ts: "target_slot w (Single s) = s" by (simp add: target_slot_def)
  let ?w' = "handle_drop E (HandleExclusive a s) w"
  have i: "inner ?w' = delete_route (d_radix E) a (inner w)"
    using unregister_hit [OF f ts] by (simp add: handle_drop_def)
  have ok: "registry_ok (d_radix E) (inner w)" using registry_reachable_ok [OF tr assms(2)] .
  have l: "lookup E b ?w' = (if b = a then None else lookup E b w)" if "concrete b" for b
    using route_radix.lookup_route_delete [OF tr ok that] f assms(3) i
    by (simp add: lookup_def covers_def concrete_wildcard eq_commute [of a b])
  then have "check_address_free (d_radix E) (inner ?w') a = Inr NotFound"
    using route_radix.check_free_concrete [OF tr route_radix.delete_route_ok [OF tr ok] assms(3)] i assms(3)
    by (simp add: lookup_def)
  with l True assms(3) show ?thesis by (simp add: has_route_def register_ok_iff Let_def)
next
  case False
  then have "remove_slot E (Single owner) s w = (False, w)" by (simp add: remove_slot_def)
  then show ?thesis
    using False assms(4) by (simp add: handle_drop_def unregister_def routes_def)
qed

text \<open>
  C37. Load-balanced subscriptions to one address share one group: a second one joins the group of the
  first, with the same queue and the same dispatcher task, adds one consumer, and creates nothing;
  a load-balanced subscription to an address bound exclusively is refused and changes nothing.
\<close>

theorem load_balanced_sharing:
  assumes "env E queue cap txs rx rqueue rcap rtxs rrx cstate" and "registry_reachable E w"
    and "routes E w a = Some target" and "routing_policy cfg = LoadBalancedPolicy"
  shows "subscribe E a cfg w = (case target of
      Single s \<Rightarrow> Some (Inl (PolicyMismatch a), w)
    | LoadBalanced g \<Rightarrow> Some (Inr (\<lparr>sub_mode = Pull (grp_req (groups w g)) g, sub_address = a\<rparr>,
        HandleLoadBalanced a g), snd (group_subscribe g w))) \<and>
    (\<forall>g. consumer_count g (snd (group_subscribe g w)) = consumer_count g w + 1 \<and>
      tasks (snd (group_subscribe g w)) = tasks w \<and> routes E (snd (group_subscribe g w)) = routes E w)"
proof
  note tr = env.axioms(4) [OF assms(1)]
  have f: "find_route (d_radix E) a (inner w) = Some target" using assms(3) by (simp add: routes_def)
  have "is_wildcard a \<longrightarrow> pattern_spec a"
    using route_radix.found_key_ok [OF tr registry_reachable_ok [OF tr assms(2)] f] by blast
  then have "check_address_free (d_radix E) (inner w) a = Inr (Duplicate target)"
    using route_radix.duplicate_find_route [OF tr] f by blast
  then show "subscribe E a cfg w = (case target of
      Single s \<Rightarrow> Some (Inl (PolicyMismatch a), w)
    | LoadBalanced g \<Rightarrow> Some (Inr (\<lparr>sub_mode = Pull (grp_req (groups w g)) g, sub_address = a\<rparr>,
        HandleLoadBalanced a g), snd (group_subscribe g w)))"
    using assms(4) by (simp add: subscribe_def get_existing_or_register_def target_load_balanced_group_def
        group_subscribe_def split: route_target.split)
  show "\<forall>g. consumer_count g (snd (group_subscribe g w)) = consumer_count g w + 1 \<and>
      tasks (snd (group_subscribe g w)) = tasks w \<and> routes E (snd (group_subscribe g w)) = routes E w"
    by (simp add: consumer_count_def group_subscribe_def routes_def fun_eq_iff)
qed

text \<open>
  C36. A new client is ready for replies: on an address no subscription receives, and with a
  configuration from the builder, creating a client succeeds, registers its address exclusively, and
  leaves a listener waiting on the empty channel behind that address, with no waiters; on an address
  that is taken it fails and registers nothing.
\<close>

theorem client_new_ready:
  assumes "env E queue cap txs rx rqueue rcap rtxs rrx cstate" and "registry_reachable E w"
    and "is_utf8 a" and "concrete a" and "built_client cfg"
  shows "if has_route E a w
    then \<exists>e w'. client_new E bcfg cfg a w = Some (Inl e, w') \<and> routes E w' = routes E w
    else \<exists>cl s ch c w'. client_new E bcfg cfg a w = Some (Inr cl, w') \<and> cl_address cl = a \<and>
      cl_handle cl = HandleExclusive a s \<and> routes E w' = (routes E w)(a \<mapsto> Single s) \<and>
      slot_sender (slots w' s) = Some ch \<and> chans w' ch = Some c \<and> rx c \<and> queue c = [] \<and>
      registry_reachable E w' \<and> replies_reachable E cstate (cl_dispatcher cl) w' \<and>
      dispatchers w' (cl_dispatcher cl) =
        \<lparr>rd_waiters = [], rd_chan = ch, rd_pc = Listening, rd_abort = False\<rparr>"
proof (cases "has_route E a w")
  case True
  note tr = env.axioms(4) [OF assms(1)]
  obtain c where c: "create_channel (d_msgs E) (unat (reply_channel_capacity cfg)) = Some c"
    using mpsc.create_channel_ok [OF env.axioms(1) [OF assms(1)] built_client_ok [OF assms(5)]] by blast
  have nf: "check_address_free (d_radix E) (inner w) a \<noteq> Inr NotFound"
    using route_radix.check_free_concrete [OF tr registry_reachable_ok [OF tr assms(2)] assms(4)] True
    by (simp add: has_route_def lookup_def)
  let ?reg = "register E a (Single (Suc (next_id w))) (bind_state c w)"
  have i: "inner (snd ?reg) = inner w" using nf by (simp add: register_inner)
  have "fst ?reg \<noteq> Inr ()" using nf by (simp add: register_ok_iff)
  then obtain e w3 where e: "?reg = (Inl e, w3)"
    by (cases ?reg; cases "fst ?reg") auto
  then have "bind_exclusive E (reply_channel_capacity cfg) a w =
      Some (Inl e, chan_drop_rx E (next_id w) (chan_drop_tx E (next_id w) w3))"
    by (simp add: bind_exclusive_eq c)
  with True i e show ?thesis by (auto simp: client_new_def routes_def frame_simps fun_eq_iff)
next
  case False
  obtain ch s w1 c where b: "bind_exclusive E (reply_channel_capacity cfg) a w = Some (Inr (ch, s), w1)"
      and r: "registry_reachable E w1" "routes E w1 = (routes E w)(a \<mapsto> Single s)"
      and w1: "slot_sender (slots w1 s) = Some ch" "chans w1 ch = Some c" "queue c = []" "rx c"
    using env.bind_exclusive_free [OF assms(1-4) False built_client_ok [OF assms(5)]] by metis
  let ?w2 = "snd (reply_dispatcher_new ch w1)"
  have d: "reply_dispatcher_new ch w1 = (next_id w1, ?w2)" "inner ?w2 = inner w1"
    by (simp_all add: reply_dispatcher_new_def fresh_def)
  have "registry_reachable E ?w2" by (rule reach_step [OF r(1) step_other [OF d(2)]])
  moreover have "replies_reachable E cstate (next_id w1) ?w2" by (rule rr_new [OF d(1)])
  ultimately show ?thesis
    using False b r(2) w1 d by (auto simp: client_new_def routes_def fun_eq_iff reply_dispatcher_new_def fresh_def)
qed

text \<open>
  C21. A pull consumer is served: when the dispatcher of a group waits for a request and the queue is
  not empty, a consumer that asks becomes the waiting one, the dispatcher reaches its delivery in
  three steps, and the consumer's receive then returns the message at the head of the queue.
\<close>

theorem pull_receives:
  assumes "env E queue cap txs rx rqueue rcap rtxs rrx cstate"
    and "tasks w t = Some k" and "task_pc k = WaitRequest"
    and "reqs w (task_req k) = Some d" and "rrx d" and "rqueue d = []" and "0 < rcap d"
    and "chans w (task_main k) = Some c" and "rx c" and "queue c = m # ms"
    and "sub_mode sub = Pull (task_req k) g"
  shows "\<exists>tok w1 w2 w3 w4. recv_poll E sub RecvStart w = (Pending, RecvAwait tok, w1) \<and>
    dispatcher_step E alive t w1 = Some (Silent, w2) \<and> dispatcher_step E alive t w2 = Some (Silent, w3) \<and>
    dispatcher_step E alive t w3 = Some (Delivered tok m, w4) \<and>
    fst (recv_poll E sub (RecvAwait tok) w4) = Ready (Some m)"
proof -
  note ms = env.axioms(1) [OF assms(1)] and rq = env.axioms(2) [OF assms(1)]
    and cells = env.axioms(3) [OF assms(1)]
  let ?tok = "next_id w" and ?cell = "os_channel (d_oneshots E)"
  obtain d1 where d1: "mp_send (d_reqs E) ?tok d = Ready (Inr d1)" "rqueue d1 = [?tok]" "rrx d1"
    using mpsc.mp_send_ok [OF rq assms(5), of ?tok] assms(6,7) by auto
  obtain d2 where d2: "receiver_recv (d_reqs E) d1 = Ready (Some (?tok, d2))"
    using mpsc.mp_recv_item [OF rq d1(3,2)] by (auto simp: receiver_recv_def)
  obtain c' where c': "receiver_recv (d_msgs E) c = Ready (Some (m, c'))"
    using mpsc.mp_recv_item [OF ms assms(9,10)] by (auto simp: receiver_recv_def)
  obtain s' where s': "os_send (d_oneshots E) m ?cell = Inr s'" "cstate s' = OsFull m"
    using oneshot.os_send_ok [OF cells oneshot.os_new [OF cells]] by blast
  let ?w1 = "fresh w\<lparr>reqs := (reqs w)(task_req k \<mapsto> d1), oneshots := (oneshots w)(?tok \<mapsto> ?cell)\<rparr>"
  let ?w2 = "set_pc t (WaitMessage ?tok) (?w1\<lparr>reqs := (reqs ?w1)(task_req k \<mapsto> d2)\<rparr>)"
  let ?w3 = "set_pc t (Deliver ?tok m) (?w2\<lparr>chans := (chans ?w2)(task_main k \<mapsto> c')\<rparr>)"
  let ?w4 = "set_pc t WaitRequest (?w3\<lparr>oneshots := (oneshots ?w3)(?tok \<mapsto> s')\<rparr>)"
  have 1: "recv_poll E sub RecvStart w = (Pending, RecvAwait ?tok, ?w1)"
    using assms(4,11) d1(1) oneshot.os_poll_wait [OF cells oneshot.os_new [OF cells]]
    by (simp add: recv_poll_def request_sender_request_def sender_send_def cell_poll_def)
  have 2: "dispatcher_step E alive t ?w1 = Some (Silent, ?w2)"
    using assms(2,3) d2 by (simp add: dispatcher_step_def task_recv_request_def fresh_def)
  have 3: "dispatcher_step E alive t ?w2 = Some (Silent, ?w3)"
    using assms(2,8) c' by (simp add: dispatcher_step_def task_recv_message_def frame_simps fresh_def)
  have 4: "dispatcher_step E alive t ?w3 = Some (Delivered ?tok m, ?w4)"
    using assms(2) s'(1) by (simp add: dispatcher_step_def reply_send_def frame_simps fresh_def)
  have "fst (recv_poll E sub (RecvAwait ?tok) ?w4) = Ready (Some m)"
    using assms(11) oneshot.os_poll_full [OF cells s'(2)]
    by (simp add: recv_poll_def cell_poll_def frame_simps)
  with 1 2 3 4 show ?thesis by blast
qed

section \<open>Witnesses\<close>

theorem subscription_receives_witness:
  "\<exists>sub h w1 w2. subscribe std_deps (ascii ''a:b'') subscriber_config_default w_empty = Some (Inr (sub, h), w1) \<and>
     client_send std_deps ab_message w1 = Ready (Inr w2) \<and>
     fst (recv_poll std_deps sub RecvStart w2) = Ready (Some ab_message)"
proof -
  have "\<not> has_route std_deps (address ab_message) w_empty"
    by (simp add: has_route_def lookup_def lookup_route_def registry_eval)
  then show ?thesis
    using subscription_receives [OF std.env_axioms w_empty_reachable ab_utf8 _ built_default]
    by (simp add: subscriber_config_default_def)
qed

theorem client_new_ready_witness:
  "\<exists>cl w'. client_new std_deps broker_config_default client_config_default (ascii ''a:b'') w_empty = Some (Inr cl, w') \<and>
     replies_reachable std_deps (\<lambda>s. s) (cl_dispatcher cl) w'"
proof -
  have "\<not> has_route std_deps (ascii ''a:b'') w_empty"
    by (simp add: has_route_def lookup_def lookup_route_def registry_eval)
  moreover have "is_utf8 (ascii ''a:b'')" by simp
  ultimately show ?thesis
    using client_new_ready [OF std.env_axioms w_empty_reachable _ ab_concrete built_client_default,
        of broker_config_default] by auto
qed

theorem exclusive_handle_drop_witness:
  "\<not> has_route std_deps (ascii ''a:b'') (handle_drop std_deps (HandleExclusive (ascii ''a:b'') 1) w_sub)"
  using exclusive_handle_drop [OF std.env_axioms w_sub_reachable ab_concrete w_sub_eval(2), of 1]
  by (simp add: Let_def)

definition lb_config :: subscriber_config where
  "lb_config = subscriber_config_default\<lparr>routing_policy := LoadBalancedPolicy\<rparr>"

theorem load_balanced_sharing_witness:
  "subscribe std_deps (ascii ''a:b'') lb_config w_group =
     Some (Inr (\<lparr>sub_mode = Pull 2 3, sub_address = ascii ''a:b''\<rparr>, HandleLoadBalanced (ascii ''a:b'') 3),
       snd (group_subscribe 3 w_group)) \<and>
   consumer_count 3 (snd (group_subscribe 3 w_group)) = 2"
  using load_balanced_sharing [OF std.env_axioms w_group_reachable w_group_eval(5), of lb_config]
  by (simp add: lb_config_def w_group_eval(6) consumer_count_def)

text \<open>The sample group with one message queued.\<close>

definition w_group_queued :: std_world where
  "w_group_queued = w_group\<lparr>chans := [0 \<mapsto> \<lparr>bq_items = [ab_message], bq_cap = 4, bq_txs = 1, bq_rx = True\<rparr>]\<rparr>"

theorem pull_receives_witness:
  "\<exists>tok w1 w2 w3 w4. recv_poll std_deps \<lparr>sub_mode = Pull 2 3, sub_address = ascii ''a:b''\<rparr> RecvStart w_group_queued =
       (Pending, RecvAwait tok, w1) \<and>
     dispatcher_step std_deps True 4 w1 = Some (Silent, w2) \<and> dispatcher_step std_deps True 4 w2 = Some (Silent, w3) \<and>
     dispatcher_step std_deps True 4 w3 = Some (Delivered tok ab_message, w4) \<and>
     fst (recv_poll std_deps \<lparr>sub_mode = Pull 2 3, sub_address = ascii ''a:b''\<rparr> (RecvAwait tok) w4) = Ready (Some ab_message)"
proof -
  have t: "tasks w_group_queued 4 = Some lb_task" using w_group_eval(2) by (simp add: w_group_queued_def)
  have r: "reqs w_group_queued (task_req lb_task) = Some \<lparr>bq_items = [], bq_cap = 1000, bq_txs = 1, bq_rx = True\<rparr>"
    using w_group_eval(4) by (simp add: w_group_queued_def lb_task_def)
  have c: "chans w_group_queued (task_main lb_task) =
      Some \<lparr>bq_items = [ab_message], bq_cap = 4, bq_txs = 1, bq_rx = True\<rparr>"
    by (simp add: w_group_queued_def lb_task_def)
  show ?thesis
    by (rule pull_receives [OF std.env_axioms t _ r _ _ _ c]) (simp_all add: lb_task_def)
qed

end
