(* ===== verification/Process.thy ===== *)
theory Process
  imports Client
begin

text \<open>
  The process as a whole: the state of all components, the lock of the registry, and the values
  that callers hold (handles, subscribers, groups about to be joined). \<open>process_step\<close> is one step of
  any task: a call into the public interface, a step of a background task, or the drop of a value.
  Every \<^verbatim>\<open>self.register_mutex.lock().unwrap()\<close> of \<^verbatim>\<open>registry/mod.rs\<close> is visible: a panic while the
  lock is held poisons it, and every later \<^verbatim>\<open>lock().unwrap()\<close> panics.
\<close>

section \<open>State\<close>

datatype 'a outcome = Ret 'a | Panic

text \<open>
  What was created together, recorded when it is created: for an exclusive binding its channel and
  slot, and the reply dispatcher that reads the channel when it belongs to a client; for a
  load-balanced address its queue, slot, request channel, group and task.
\<close>

record exclusive_binding =
  eb_address :: bytes
  eb_chan :: nat
  eb_slot :: nat
  eb_listener :: "nat option"

record group_binding =
  gb_address :: bytes
  gb_chan :: nat
  gb_slot :: nat
  gb_req :: nat
  gb_group :: nat
  gb_task :: nat

record ('t, 'c, 'd, 'o) process =
  ps_world :: "('t, 'c, 'd, 'o) world"
  ps_poisoned :: bool
  ps_handles :: "subscription_handle list"
  ps_subs :: "subscriber list"
  ps_joining :: "(bytes \<times> nat) list"
  ps_exclusive :: "exclusive_binding list"
  ps_groups :: "group_binding list"
  ps_dropped :: "nat list"

definition process_new :: "('t, 'c, 'd, 'o) deps \<Rightarrow> ('t, 'c, 'd, 'o) process" where
  "process_new E = \<lparr>ps_world = world_new E, ps_poisoned = False, ps_handles = [], ps_subs = [],
     ps_joining = [], ps_exclusive = [], ps_groups = [], ps_dropped = []\<rparr>"

section \<open>Operations that take the lock\<close>

text \<open>
  \<^verbatim>\<open>BrokerClient::subscribe\<close> with an exclusive policy: the channel is created before the lock is
  taken, so a bad capacity panics without poisoning it.
\<close>

definition p_subscribe_exclusive ::
    "('t, 'c, 'd, 'o) deps \<Rightarrow> bytes \<Rightarrow> subscriber_config \<Rightarrow> ('t, 'c, 'd, 'o) process \<Rightarrow>
     (registry_error + subscriber \<times> subscription_handle) outcome \<times> ('t, 'c, 'd, 'o) process" where
  "p_subscribe_exclusive E addr cfg p =
     (case bind_exclusive E (channel_capacity cfg) addr (ps_world p) of
        None \<Rightarrow> (Panic, p)
      | Some (result, w') \<Rightarrow>
          (if ps_poisoned p then (Panic, p)
           else case result of
             Inl e \<Rightarrow> (Ret (Inl e), p\<lparr>ps_world := w'\<rparr>)
           | Inr (ch, s) \<Rightarrow>
               (let sub = \<lparr>sub_mode = Push ch, sub_address = addr\<rparr>; h = HandleExclusive addr s
                in (Ret (Inr (sub, h)),
                    p\<lparr>ps_world := w', ps_handles := h # ps_handles p, ps_subs := sub # ps_subs p,
                      ps_exclusive := \<lparr>eb_address = addr, eb_chan = ch, eb_slot = s, eb_listener = None\<rparr>
                        # ps_exclusive p\<rparr>))))"

definition p_client_new ::
    "('t, 'c, 'd, 'o) deps \<Rightarrow> broker_config \<Rightarrow> client_config \<Rightarrow> bytes \<Rightarrow> ('t, 'c, 'd, 'o) process \<Rightarrow>
     (registry_error + client) outcome \<times> ('t, 'c, 'd, 'o) process" where
  "p_client_new E bcfg cfg addr p =
     (case bind_exclusive E (reply_channel_capacity cfg) addr (ps_world p) of
        None \<Rightarrow> (Panic, p)
      | Some (result, w1) \<Rightarrow>
          (if ps_poisoned p then (Panic, p)
           else case result of
             Inl e \<Rightarrow> (Ret (Inl e), p\<lparr>ps_world := w1\<rparr>)
           | Inr (ch, s) \<Rightarrow>
               (let (r, w2) = reply_dispatcher_new ch w1; h = HandleExclusive addr s
                in (Ret (Inr \<lparr>cl_address = addr, cl_handle = h, cl_dispatcher = r, cl_config = bcfg\<rparr>),
                    p\<lparr>ps_world := w2, ps_handles := h # ps_handles p,
                      ps_exclusive := \<lparr>eb_address = addr, eb_chan = ch, eb_slot = s, eb_listener = Some r\<rparr>
                        # ps_exclusive p\<rparr>))))"

text \<open>
  \<^verbatim>\<open>subscribe\<close> with a load-balanced policy has two steps: \<^verbatim>\<open>get_existing_or_register\<close> under the lock,
  whose factory creates the channel, and \<^verbatim>\<open>group.subscribe()\<close> after it is released.
\<close>

definition binding_of :: "bytes \<Rightarrow> nat \<Rightarrow> ('t, 'c, 'd, 'o) world \<Rightarrow> group_binding" where
  "binding_of addr g w =
     \<lparr>gb_address = addr, gb_chan = the (slot_sender (slots w (grp_slot (groups w g)))),
      gb_slot = grp_slot (groups w g), gb_req = grp_req (groups w g), gb_group = g,
      gb_task = the (grp_handle (groups w g))\<rparr>"

definition p_lb_resolve ::
    "('t, 'c, 'd, 'o) deps \<Rightarrow> bytes \<Rightarrow> subscriber_config \<Rightarrow> ('t, 'c, 'd, 'o) process \<Rightarrow>
     (registry_error + nat) outcome \<times> ('t, 'c, 'd, 'o) process" where
  "p_lb_resolve E addr cfg p =
     (if ps_poisoned p then (Panic, p)
      else case get_existing_or_register E addr (lb_factory E (channel_capacity cfg) addr) (ps_world p) of
        None \<Rightarrow> (Panic, p\<lparr>ps_poisoned := True\<rparr>)
      | Some (Inl e, w') \<Rightarrow> (Ret (Inl e), p\<lparr>ps_world := w'\<rparr>)
      | Some (Inr (Registered target), w') \<Rightarrow>
          (case target_load_balanced_group target of
             None \<Rightarrow> (Ret (Inl (PolicyMismatch addr)), p\<lparr>ps_world := w'\<rparr>)
           | Some g \<Rightarrow> (Ret (Inr g), p\<lparr>ps_world := w', ps_joining := (addr, g) # ps_joining p,
               ps_groups := binding_of addr g w' # ps_groups p\<rparr>))
      | Some (Inr (AlreadyExists target), w') \<Rightarrow>
          (case target_load_balanced_group target of
             None \<Rightarrow> (Ret (Inl (PolicyMismatch addr)), p\<lparr>ps_world := w'\<rparr>)
           | Some g \<Rightarrow> (Ret (Inr g), p\<lparr>ps_world := w', ps_joining := (addr, g) # ps_joining p\<rparr>)))"

definition p_lb_join ::
    "bytes \<Rightarrow> nat \<Rightarrow> ('t, 'c, 'd, 'o) process \<Rightarrow>
     (subscriber \<times> subscription_handle) \<times> ('t, 'c, 'd, 'o) process" where
  "p_lb_join addr g p =
     (let (r, w') = group_subscribe g (ps_world p);
          sub = \<lparr>sub_mode = Pull r g, sub_address = addr\<rparr>; h = HandleLoadBalanced addr g
      in ((sub, h), p\<lparr>ps_world := w', ps_joining := remove1 (addr, g) (ps_joining p),
            ps_handles := h # ps_handles p, ps_subs := sub # ps_subs p\<rparr>))"

text \<open>Only the handle of an exclusive subscription takes the lock when it is dropped.\<close>

definition p_handle_drop ::
    "('t, 'c, 'd, 'o) deps \<Rightarrow> subscription_handle \<Rightarrow> ('t, 'c, 'd, 'o) process \<Rightarrow>
     unit outcome \<times> ('t, 'c, 'd, 'o) process" where
  "p_handle_drop E h p =
     (let p1 = p\<lparr>ps_handles := remove1 h (ps_handles p)\<rparr>
      in case h of
           HandleExclusive _ _ \<Rightarrow>
             (if ps_poisoned p then (Panic, p1) else (Ret (), p1\<lparr>ps_world := handle_drop E h (ps_world p)\<rparr>))
         | HandleLoadBalanced _ _ \<Rightarrow> (Ret (), p1\<lparr>ps_world := handle_drop E h (ps_world p)\<rparr>))"

text \<open>
  A step of a dispatcher task. When it ends it unregisters its address; with a poisoned lock that
  panics instead, which ends the task without the deregistration and drops its receivers all the same.
\<close>

definition p_dispatcher_step ::
    "('t, 'c, 'd, 'o) deps \<Rightarrow> nat \<Rightarrow> ('t, 'c, 'd, 'o) process \<Rightarrow>
     (dispatcher_label \<times> ('t, 'c, 'd, 'o) process) option" where
  "p_dispatcher_step E t p =
     map_option (\<lambda>(l, w'). (l, p\<lparr>ps_world := w'\<rparr>)) (dispatcher_step E (\<not> ps_poisoned p) t (ps_world p))"

section \<open>Operations without the lock\<close>

definition p_subscriber_drop ::
    "('t, 'c, 'd, 'o) deps \<Rightarrow> subscriber \<Rightarrow> ('t, 'c, 'd, 'o) process \<Rightarrow> ('t, 'c, 'd, 'o) process" where
  "p_subscriber_drop E sub p =
     p\<lparr>ps_world := subscriber_drop E sub (ps_world p), ps_subs := remove1 sub (ps_subs p)\<rparr>"

text \<open>
  A group is dropped with its last reference: the registry, the handles and the calls that are about
  to join it hold references, and so do cached endpoints, which can only delay the drop.
\<close>

definition group_unreferenced :: "('t, 'c, 'd, 'o) deps \<Rightarrow> nat \<Rightarrow> ('t, 'c, 'd, 'o) process \<Rightarrow> bool" where
  "group_unreferenced E g p \<longleftrightarrow>
     (\<forall>b\<in>set (ps_groups p). gb_group b = g \<longrightarrow>
        find_route (d_radix E) (gb_address b) (inner (ps_world p)) \<noteq> Some (LoadBalanced g)) \<and>
     (\<forall>h\<in>set (ps_handles p). case h of HandleLoadBalanced _ g' \<Rightarrow> g' \<noteq> g | _ \<Rightarrow> True) \<and>
     g \<notin> snd ` set (ps_joining p) \<and> g \<notin> set (ps_dropped p)"

definition p_group_drop ::
    "('t, 'c, 'd, 'o) deps \<Rightarrow> nat \<Rightarrow> ('t, 'c, 'd, 'o) process \<Rightarrow> ('t, 'c, 'd, 'o) process" where
  "p_group_drop E g p = p\<lparr>ps_world := group_drop E g (ps_world p), ps_dropped := g # ps_dropped p\<rparr>"

section \<open>Steps\<close>

text \<open>
  Steps that touch neither the lock nor what callers own: sends to any endpoint, cached or not, and
  their later polls, receives, requests in all their stages, cancelled receives, the listener tasks,
  the drop of a reply dispatcher, and aborts that take effect.
\<close>

inductive task_step ::
    "('t, 'c, 'd, 'o) deps \<Rightarrow> subscriber set \<Rightarrow> ('t, 'c, 'd, 'o) world \<Rightarrow> ('t, 'c, 'd, 'o) world \<Rightarrow> bool"
    for E subs where
  ts_send: "client_send E m w = Ready (Inr w') \<Longrightarrow> task_step E subs w w'"
| ts_endpoint: "endpoint_send E ep m w = Ready (Inr w') \<Longrightarrow> task_step E subs w w'"
| ts_resume: "send_resume E ch m w = Ready (Inr w') \<Longrightarrow> task_step E subs w w'"
| ts_recv: "sub \<in> subs \<Longrightarrow> recv_poll E sub pc w = (q, pc', w') \<Longrightarrow> task_step E subs w w'"
| ts_try_recv: "sub \<in> subs \<Longrightarrow> subscriber_try_recv E sub w = (q, w') \<Longrightarrow> task_step E subs w w'"
| ts_cancel: "task_step E subs w (oneshot_drop_rx E i w)"
| ts_request: "request_begin E (in_memory E) elapsed r find_ep m w = (q, w') \<Longrightarrow> task_step E subs w w'"
| ts_request_poll: "request_poll E (in_memory E) elapsed rq w = (q, w') \<Longrightarrow> task_step E subs w w'"
| ts_request_end: "task_step E subs w (request_end E (rq :: nat request) w)"
| ts_listener: "listener_step E r w = Some w' \<Longrightarrow> task_step E subs w w'"
| ts_listener_abort: "listener_abort E r w = Some w' \<Longrightarrow> task_step E subs w w'"
| ts_replies_drop: "task_step E subs w (reply_dispatcher_drop E r w)"
| ts_dispatcher_abort: "dispatcher_abort E t w = Some w' \<Longrightarrow> task_step E subs w w'"

text \<open>
  Steps of the process; with \<open>built\<close>, callers only pass configurations made by the builders.
\<close>

inductive process_step ::
    "('t, 'c, 'd, 'o) deps \<Rightarrow> bool \<Rightarrow> ('t, 'c, 'd, 'o) process \<Rightarrow> ('t, 'c, 'd, 'o) process \<Rightarrow> bool"
    for E built where
  ps_subscribe_exclusive: "is_utf8 a \<Longrightarrow> built \<longrightarrow> built_subscriber cfg \<Longrightarrow>
    p_subscribe_exclusive E a cfg p = (q, p') \<Longrightarrow> process_step E built p p'"
| ps_client_new: "is_utf8 a \<Longrightarrow> built \<longrightarrow> built_client cfg \<Longrightarrow>
    p_client_new E bcfg cfg a p = (q, p') \<Longrightarrow> process_step E built p p'"
| ps_lb_resolve: "is_utf8 a \<Longrightarrow> built \<longrightarrow> built_subscriber cfg \<Longrightarrow>
    p_lb_resolve E a cfg p = (q, p') \<Longrightarrow> process_step E built p p'"
| ps_lb_join: "(a, g) \<in> set (ps_joining p) \<Longrightarrow> p_lb_join a g p = (q, p') \<Longrightarrow> process_step E built p p'"
| ps_handle_drop: "h \<in> set (ps_handles p) \<Longrightarrow> p_handle_drop E h p = (q, p') \<Longrightarrow> process_step E built p p'"
| ps_subscriber_drop: "sub \<in> set (ps_subs p) \<Longrightarrow> process_step E built p (p_subscriber_drop E sub p)"
| ps_group_drop: "b \<in> set (ps_groups p) \<Longrightarrow> group_unreferenced E (gb_group b) p \<Longrightarrow>
    process_step E built p (p_group_drop E (gb_group b) p)"
| ps_dispatcher: "p_dispatcher_step E t p = Some (l, p') \<Longrightarrow> process_step E built p p'"
| ps_task: "task_step E (set (ps_subs p)) (ps_world p) w' \<Longrightarrow> process_step E built p (p\<lparr>ps_world := w'\<rparr>)"

inductive process_reachable ::
    "('t, 'c, 'd, 'o) deps \<Rightarrow> bool \<Rightarrow> ('t, 'c, 'd, 'o) process \<Rightarrow> bool" for E built where
  pr_start: "process_reachable E built (process_new E)"
| pr_step: "process_reachable E built p \<Longrightarrow> process_step E built p p' \<Longrightarrow> process_reachable E built p'"

end
