(* ===== verification/Process_Inv.thy ===== *)
theory Process_Inv
  imports Process
begin

text \<open>
  The invariant of a process whose lock is not poisoned, and that every step keeps it. It says who
  owns what: every route leads to something that was created for its address, an exclusive slot holds
  the only sender of its channel exactly while its handle lives, reference counts are exact, and
  receivers live as long as their owners. Two relations carry the proof: \<open>extends\<close> for steps that
  create something, and \<open>quiet\<close> for steps that only move messages or drop receivers.
\<close>

section \<open>Counting owners\<close>

fun exclusive_handle :: "subscription_handle \<Rightarrow> bool" where
  "exclusive_handle (HandleExclusive a s) = True"
| "exclusive_handle (HandleLoadBalanced a g) = False"

fun handle_of_group :: "nat \<Rightarrow> subscription_handle \<Rightarrow> bool" where
  "handle_of_group g (HandleLoadBalanced a g') = (g' = g)"
| "handle_of_group g (HandleExclusive a s) = False"

definition lb_handles :: "nat \<Rightarrow> subscription_handle list \<Rightarrow> nat" where
  "lb_handles g hs = length (filter (handle_of_group g) hs)"

fun pull_of_group :: "nat \<Rightarrow> subscriber_mode \<Rightarrow> bool" where
  "pull_of_group g (Pull r g') = (g' = g)"
| "pull_of_group g (Push ch) = False"

definition pull_subs :: "nat \<Rightarrow> subscriber list \<Rightarrow> nat" where
  "pull_subs g subs = length (filter (\<lambda>sub. pull_of_group g (sub_mode sub)) subs)"

fun push_of :: "subscriber_mode \<Rightarrow> nat list" where
  "push_of (Push ch) = [ch]"
| "push_of (Pull r g) = []"

definition push_chans :: "subscriber list \<Rightarrow> nat list" where
  "push_chans subs = concat (map (\<lambda>sub. push_of (sub_mode sub)) subs)"

lemma counts_Nil [simp]: "lb_handles g [] = 0" "pull_subs g [] = 0" "push_chans [] = []"
  by (simp_all add: lb_handles_def pull_subs_def push_chans_def)

lemma counts_Cons [simp]:
  "lb_handles g (h # hs) = (if handle_of_group g h then 1 else 0) + lb_handles g hs"
  "pull_subs g (sub # subs) = (if pull_of_group g (sub_mode sub) then 1 else 0) + pull_subs g subs"
  "push_chans (sub # subs) = push_of (sub_mode sub) @ push_chans subs"
  by (simp_all add: lb_handles_def pull_subs_def push_chans_def)

lemma lb_handles_remove1:
  "h \<in> set hs \<Longrightarrow> lb_handles g hs = (if handle_of_group g h then 1 else 0) + lb_handles g (remove1 h hs)"
  by (induction hs) auto

lemma pull_subs_remove1:
  "sub \<in> set subs \<Longrightarrow>
   pull_subs g subs = (if pull_of_group g (sub_mode sub) then 1 else 0) + pull_subs g (remove1 sub subs)"
  by (induction subs) auto

lemma push_chans_remove1:
  "sub \<in> set subs \<Longrightarrow> distinct (push_chans subs) \<Longrightarrow>
   distinct (push_chans (remove1 sub subs)) \<and>
   set (push_chans (remove1 sub subs)) = set (push_chans subs) - set (push_of (sub_mode sub))"
proof (induction subs)
  case (Cons x subs)
  show ?case
  proof (cases "x = sub")
    case True
    then show ?thesis using Cons.prems by (cases "sub_mode sub") auto
  next
    case False
    with Cons have ih: "distinct (push_chans (remove1 sub subs))"
      "set (push_chans (remove1 sub subs)) = set (push_chans subs) - set (push_of (sub_mode sub))"
      and m: "sub \<in> set subs" by auto
    have "set (push_of (sub_mode sub)) \<subseteq> set (push_chans subs)"
      using m by (auto simp: push_chans_def)
    with False ih Cons.prems(2) show ?thesis by (cases "sub_mode x") auto
  qed
qed simp

lemma set_push_of: "ch \<in> set (push_of m) \<longleftrightarrow> m = Push ch"
  by (cases m) auto

lemma set_push_chans: "ch \<in> set (push_chans subs) \<longleftrightarrow> (\<exists>sub\<in>set subs. sub_mode sub = Push ch)"
  by (induction subs) (auto simp: set_push_of)

lemma exclusive_remove1:
  "distinct (filter exclusive_handle hs) \<Longrightarrow> exclusive_handle h \<Longrightarrow>
   h' \<in> set (remove1 h hs) \<longleftrightarrow> h' \<in> set hs \<and> h' \<noteq> h" if "exclusive_handle h'" for h'
proof -
  assume d: "distinct (filter exclusive_handle hs)"
  have "h' \<in> set (remove1 h hs) \<longleftrightarrow> h' \<in> set (filter exclusive_handle (remove1 h hs))" using that by simp
  also have "\<dots> \<longleftrightarrow> h' \<in> set (remove1 h (filter exclusive_handle hs))" by (simp add: filter_remove1)
  also have "\<dots> \<longleftrightarrow> h' \<in> set hs \<and> h' \<noteq> h" using d that by (simp add: set_remove1_eq)
  finally show ?thesis .
qed

section \<open>The invariant\<close>

text \<open>A slot and its channel: the slot is the only place that holds a sender.\<close>

definition slot_channel_ok :: "('c \<Rightarrow> nat) \<Rightarrow> nat \<Rightarrow> nat \<Rightarrow> ('t, 'c, 'd, 'o) world \<Rightarrow> bool" where
  "slot_channel_ok txs s ch w \<longleftrightarrow>
     (\<forall>s'. slot_sender (slots w s') = Some ch \<longrightarrow> s' = s) \<and>
     (slot_sender (slots w s) = None \<or> slot_sender (slots w s) = Some ch) \<and>
     (\<exists>c. chans w ch = Some c \<and> txs c = of_bool (slot_sender (slots w s) \<noteq> None))"

definition receiver_ok :: "('c \<Rightarrow> bool) \<Rightarrow> nat \<Rightarrow> ('t, 'c, 'd, 'o) world \<Rightarrow> bool" where
  "receiver_ok rx ch w \<longleftrightarrow> (\<exists>c. chans w ch = Some c \<and> rx c)"

definition task_active :: "task \<Rightarrow> bool" where
  "task_active k \<longleftrightarrow> task_pc k \<noteq> Finished \<and> task_pc k \<noteq> Aborted"

definition same_task :: "task \<Rightarrow> task \<Rightarrow> bool" where
  "same_task k k' \<longleftrightarrow> task_main k' = task_main k \<and> task_req k' = task_req k \<and>
     task_slot k' = task_slot k \<and> task_address k' = task_address k \<and> (task_active k' \<longrightarrow> task_active k)"

definition same_groups :: "('t, 'c, 'd, 'o) world \<Rightarrow> ('t, 'c, 'd, 'o) world \<Rightarrow> bool" where
  "same_groups w w' \<longleftrightarrow> (\<forall>g. grp_slot (groups w' g) = grp_slot (groups w g) \<and>
     grp_req (groups w' g) = grp_req (groups w g) \<and> grp_consumers (groups w' g) = grp_consumers (groups w g) \<and>
     grp_req_count (groups w' g) = grp_req_count (groups w g))"

lemma same_groups_refl [simp]: "groups w' = groups w \<Longrightarrow> same_groups w w'"
  by (simp add: same_groups_def)

lemma same_groups_trans: "same_groups w w1 \<Longrightarrow> same_groups w1 w2 \<Longrightarrow> same_groups w w2"
  by (simp add: same_groups_def)

definition eb_ids :: "exclusive_binding \<Rightarrow> nat list" where
  "eb_ids e = eb_chan e # eb_slot e # (case eb_listener e of None \<Rightarrow> [] | Some r \<Rightarrow> [r])"

definition gb_ids :: "group_binding \<Rightarrow> nat list" where
  "gb_ids b = [gb_chan b, gb_slot b, gb_req b, gb_group b, gb_task b]"

definition binding_ids :: "('t, 'c, 'd, 'o) process \<Rightarrow> nat list" where
  "binding_ids p = concat (map eb_ids (ps_exclusive p)) @ concat (map gb_ids (ps_groups p))"

lemma binding_ids_frame [simp]:
  "binding_ids (p\<lparr>ps_world := w\<rparr>) = binding_ids p" "binding_ids (p\<lparr>ps_handles := hs\<rparr>) = binding_ids p"
  "binding_ids (p\<lparr>ps_subs := subs\<rparr>) = binding_ids p" "binding_ids (p\<lparr>ps_joining := j\<rparr>) = binding_ids p"
  "binding_ids (p\<lparr>ps_dropped := gs\<rparr>) = binding_ids p"
  by (simp_all add: binding_ids_def)

definition eb_handle :: "exclusive_binding \<Rightarrow> subscription_handle" where
  "eb_handle e = HandleExclusive (eb_address e) (eb_slot e)"

definition ids_ok :: "('t, 'c, 'd, 'o) process \<Rightarrow> bool" where
  "ids_ok p \<longleftrightarrow> distinct (binding_ids p) \<and> (\<forall>i\<in>set (binding_ids p). i < next_id (ps_world p)) \<and>
     (\<forall>s ch. slot_sender (slots (ps_world p) s) = Some ch \<longrightarrow> ch < next_id (ps_world p))"

definition owned_ok :: "('t, 'c, 'd, 'o) process \<Rightarrow> bool" where
  "owned_ok p \<longleftrightarrow>
     (\<forall>h\<in>set (ps_handles p). exclusive_handle h \<longrightarrow> h \<in> eb_handle ` set (ps_exclusive p)) \<and>
     distinct (filter exclusive_handle (ps_handles p)) \<and>
     (\<forall>a g. HandleLoadBalanced a g \<in> set (ps_handles p) \<or> (a, g) \<in> set (ps_joining p) \<longrightarrow>
        g \<notin> set (ps_dropped p) \<and> (\<exists>b\<in>set (ps_groups p). gb_group b = g \<and> gb_address b = a)) \<and>
     distinct (push_chans (ps_subs p)) \<and>
     (\<forall>ch\<in>set (push_chans (ps_subs p)). \<exists>e\<in>set (ps_exclusive p). eb_chan e = ch \<and> eb_listener e = None) \<and>
     (\<forall>sub\<in>set (ps_subs p). \<forall>r g. sub_mode sub = Pull r g \<longrightarrow>
        (\<exists>b\<in>set (ps_groups p). gb_group b = g \<and> gb_req b = r)) \<and>
     (\<forall>t. tasks (ps_world p) t \<noteq> None \<longrightarrow> t \<in> gb_task ` set (ps_groups p)) \<and>
     (\<forall>r. rd_pc (dispatchers (ps_world p) r) \<noteq> ListenerEnded \<longrightarrow>
        Some r \<in> eb_listener ` set (ps_exclusive p)) \<and>
     set (ps_dropped p) \<subseteq> gb_group ` set (ps_groups p)"

context env
begin

definition exclusive_ok ::
    "subscription_handle list \<Rightarrow> subscriber list \<Rightarrow> ('t, 'c, 'd, 'o) world \<Rightarrow> exclusive_binding \<Rightarrow> bool" where
  "exclusive_ok hs subs w e \<longleftrightarrow>
     slot_channel_ok txs (eb_slot e) (eb_chan e) w \<and>
     (slot_sender (slots w (eb_slot e)) \<noteq> None \<longleftrightarrow> eb_handle e \<in> set hs) \<and>
     (eb_handle e \<in> set hs \<longrightarrow> routes E w (eb_address e) = Some (Single (eb_slot e))) \<and>
     (case eb_listener e of
        None \<Rightarrow> eb_chan e \<in> set (push_chans subs) \<longrightarrow> receiver_ok rx (eb_chan e) w
      | Some r \<Rightarrow> rd_chan (dispatchers w r) = eb_chan e \<and>
          (rd_pc (dispatchers w r) \<noteq> ListenerEnded \<longrightarrow> receiver_ok rx (eb_chan e) w))"

text \<open>The request channel and the task of a group.\<close>

definition group_task_ok :: "('t, 'c, 'd, 'o) world \<Rightarrow> group_binding \<Rightarrow> bool" where
  "group_task_ok w b \<longleftrightarrow>
     (\<exists>d. reqs w (gb_req b) = Some d \<and> rtxs d = of_bool (grp_req_count (groups w (gb_group b)) \<noteq> 0) \<and>
       (\<exists>k. tasks w (gb_task b) = Some k \<and> task_main k = gb_chan b \<and> task_req k = gb_req b \<and>
         task_slot k = gb_slot b \<and> task_address k = gb_address b \<and>
         (task_active k \<longrightarrow> receiver_ok rx (gb_chan b) w \<and> rrx d)))"

definition group_ok ::
    "subscription_handle list \<Rightarrow> subscriber list \<Rightarrow> nat list \<Rightarrow> ('t, 'c, 'd, 'o) world \<Rightarrow> group_binding \<Rightarrow> bool" where
  "group_ok hs subs dropped w b \<longleftrightarrow>
     slot_channel_ok txs (gb_slot b) (gb_chan b) w \<and> group_task_ok w b \<and>
     grp_slot (groups w (gb_group b)) = gb_slot b \<and> grp_req (groups w (gb_group b)) = gb_req b \<and>
     grp_consumers (groups w (gb_group b)) = of_nat (lb_handles (gb_group b) hs) \<and>
     grp_req_count (groups w (gb_group b)) =
       of_bool (gb_group b \<notin> set dropped) + pull_subs (gb_group b) subs"

definition routes_ok :: "('t, 'c, 'd, 'o) process \<Rightarrow> bool" where
  "routes_ok p \<longleftrightarrow> (\<forall>a.
     (\<forall>s. routes E (ps_world p) a = Some (Single s) \<longrightarrow>
        HandleExclusive a s \<in> set (ps_handles p)) \<and>
     (\<forall>g. routes E (ps_world p) a = Some (LoadBalanced g) \<longrightarrow>
        g \<notin> set (ps_dropped p) \<and> (\<exists>b\<in>set (ps_groups p). gb_group b = g \<and> gb_address b = a)))"

definition process_inv :: "('t, 'c, 'd, 'o) process \<Rightarrow> bool" where
  "process_inv p \<longleftrightarrow> registry_reachable E (ps_world p) \<and> ids_ok p \<and> owned_ok p \<and> routes_ok p \<and>
     (\<forall>e\<in>set (ps_exclusive p). exclusive_ok (ps_handles p) (ps_subs p) (ps_world p) e) \<and>
     (\<forall>b\<in>set (ps_groups p). group_ok (ps_handles p) (ps_subs p) (ps_dropped p) (ps_world p) b)"

lemma process_inv_new: "process_inv (process_new E)"
proof -
  have "registry_reachable E (world_new E)" by (rule reach_new) (simp add: world_new_def)
  moreover have "routes E (world_new E) a = None" for a
    by (simp add: routes_def world_new_def registry_new_def find_route_eq tree.get_new)
  ultimately show ?thesis
    by (simp add: process_inv_def process_new_def ids_ok_def owned_ok_def routes_ok_def binding_ids_def)
      (simp add: world_new_def)
qed


text \<open>The parts of a reachable state.\<close>

lemma process_invD:
  assumes "process_inv p"
  shows "registry_reachable E (ps_world p)" "registry_ok (d_radix E) (inner (ps_world p))"
    "ids_ok p" "owned_ok p" "routes_ok p"
    "\<And>e. e \<in> set (ps_exclusive p) \<Longrightarrow> exclusive_ok (ps_handles p) (ps_subs p) (ps_world p) e"
    "\<And>b. b \<in> set (ps_groups p) \<Longrightarrow> group_ok (ps_handles p) (ps_subs p) (ps_dropped p) (ps_world p) b"
  using assms registry_reachable_ok [OF tree.route_radix_axioms] by (auto simp: process_inv_def)

section \<open>Steps that create\<close>

text \<open>Everything allocated before is as it was, and no new slot holds a sender of an old channel.\<close>

definition extends :: "('t, 'c, 'd, 'o) world \<Rightarrow> ('t, 'c, 'd, 'o) world \<Rightarrow> bool" where
  "extends w w' \<longleftrightarrow> next_id w \<le> next_id w' \<and>
     (\<forall>i<next_id w. slots w' i = slots w i \<and> chans w' i = chans w i \<and> reqs w' i = reqs w i \<and>
        groups w' i = groups w i \<and> tasks w' i = tasks w i \<and> dispatchers w' i = dispatchers w i) \<and>
     (\<forall>s ch. slot_sender (slots w' s) = Some ch \<longrightarrow>
        slot_sender (slots w s) = Some ch \<or> next_id w \<le> ch \<and> ch < next_id w')"

lemma slot_channel_extends:
  assumes "slot_channel_ok txs s ch w" and "extends w w'" and "s < next_id w" and "ch < next_id w"
  shows "slot_channel_ok txs s ch w'"
  using assms unfolding slot_channel_ok_def extends_def by (metis leD)

lemma exclusive_ok_extends:
  assumes "exclusive_ok hs subs w e" and "extends w w'" and "\<forall>i\<in>set (eb_ids e). i < next_id w"
    and "eb_handle e \<in> set hs' \<longleftrightarrow> eb_handle e \<in> set hs"
    and "eb_handle e \<in> set hs \<Longrightarrow> routes E w' (eb_address e) = routes E w (eb_address e)"
    and "eb_chan e \<in> set (push_chans subs') \<longleftrightarrow> eb_chan e \<in> set (push_chans subs)"
  shows "exclusive_ok hs' subs' w' e"
proof -
  have i: "eb_chan e < next_id w" "eb_slot e < next_id w" "\<And>r. eb_listener e = Some r \<Longrightarrow> r < next_id w"
    using assms(3) by (auto simp: eb_ids_def)
  then have "slot_channel_ok txs (eb_slot e) (eb_chan e) w'"
    using assms(1,2) slot_channel_extends by (auto simp: exclusive_ok_def)
  with assms i show ?thesis
    by (auto simp: exclusive_ok_def extends_def receiver_ok_def split: option.splits)
qed

lemma group_ok_extends:
  assumes "group_ok hs subs dropped w b" and "extends w w'" and "\<forall>i\<in>set (gb_ids b). i < next_id w"
    and "lb_handles (gb_group b) hs' = lb_handles (gb_group b) hs"
    and "pull_subs (gb_group b) subs' = pull_subs (gb_group b) subs"
  shows "group_ok hs' subs' dropped w' b"
proof -
  have i: "gb_chan b < next_id w" "gb_slot b < next_id w" "gb_req b < next_id w" "gb_group b < next_id w"
      "gb_task b < next_id w"
    using assms(3) by (auto simp: gb_ids_def)
  then have "slot_channel_ok txs (gb_slot b) (gb_chan b) w'"
    using assms(1,2) slot_channel_extends by (auto simp: group_ok_def)
  with assms i show ?thesis unfolding group_ok_def group_task_ok_def extends_def receiver_ok_def by metis
qed

section \<open>Steps that move messages and drop receivers\<close>

text \<open>\<open>D\<close> are the channels whose receiver may be dropped.\<close>

definition quiet :: "nat set \<Rightarrow> ('t, 'c, 'd, 'o) world \<Rightarrow> ('t, 'c, 'd, 'o) world \<Rightarrow> bool" where
  "quiet D w w' \<longleftrightarrow> inner w' = inner w \<and> slots w' = slots w \<and> same_groups w w' \<and> next_id w \<le> next_id w' \<and>
     (\<forall>ch c. chans w ch = Some c \<longrightarrow>
        (\<exists>c'. chans w' ch = Some c' \<and> txs c' = txs c \<and> (ch \<notin> D \<and> rx c \<longrightarrow> rx c'))) \<and>
     (\<forall>t. rel_option same_task (tasks w t) (tasks w' t)) \<and>
     (\<forall>r d. reqs w r = Some d \<longrightarrow> (\<exists>d'. reqs w' r = Some d' \<and> rtxs d' = rtxs d \<and>
        (rrx d' \<or> \<not> rrx d \<or> (\<forall>t k. tasks w' t = Some k \<and> task_req k = r \<longrightarrow> \<not> task_active k)))) \<and>
     (\<forall>r. rd_chan (dispatchers w' r) = rd_chan (dispatchers w r) \<and>
        (rd_pc (dispatchers w' r) \<noteq> ListenerEnded \<longrightarrow> rd_pc (dispatchers w r) \<noteq> ListenerEnded))"

lemma quietI:
  assumes "inner w' = inner w" and "slots w' = slots w" and "same_groups w w'" and "next_id w \<le> next_id w'"
    and "\<forall>ch c. chans w ch = Some c \<longrightarrow>
        (\<exists>c'. chans w' ch = Some c' \<and> txs c' = txs c \<and> (ch \<notin> D \<and> rx c \<longrightarrow> rx c'))"
    and "\<forall>t. rel_option same_task (tasks w t) (tasks w' t)"
    and "\<forall>r d. reqs w r = Some d \<longrightarrow> (\<exists>d'. reqs w' r = Some d' \<and> rtxs d' = rtxs d \<and>
        (rrx d' \<or> \<not> rrx d \<or> (\<forall>t k. tasks w' t = Some k \<and> task_req k = r \<longrightarrow> \<not> task_active k)))"
    and "\<forall>r. rd_chan (dispatchers w' r) = rd_chan (dispatchers w r) \<and>
        (rd_pc (dispatchers w' r) \<noteq> ListenerEnded \<longrightarrow> rd_pc (dispatchers w r) \<noteq> ListenerEnded)"
  shows "quiet D w w'"
  unfolding quiet_def using assms by (intro conjI)

lemma quietD:
  assumes "quiet D w w'"
  shows "inner w' = inner w" "slots w' = slots w" "same_groups w w'" "next_id w \<le> next_id w'"
    "\<And>t. rel_option same_task (tasks w t) (tasks w' t)"
    "\<And>r. rd_chan (dispatchers w' r) = rd_chan (dispatchers w r)"
    "\<And>r. rd_pc (dispatchers w' r) \<noteq> ListenerEnded \<Longrightarrow> rd_pc (dispatchers w r) \<noteq> ListenerEnded"
  using assms unfolding quiet_def by blast+

lemma quiet_channel:
  assumes "quiet D w w'" and "slot_channel_ok txs s ch w"
  shows "slot_channel_ok txs s ch w'"
proof -
  obtain c where c: "chans w ch = Some c" "txs c = of_bool (slot_sender (slots w s) \<noteq> None)"
    using assms(2) by (auto simp: slot_channel_ok_def)
  then obtain c' where "chans w' ch = Some c'" "txs c' = txs c"
    using assms(1) unfolding quiet_def by blast
  then show ?thesis using assms(2) c quietD(2) [OF assms(1)] by (simp add: slot_channel_ok_def)
qed

lemma quiet_receiver: "quiet D w w' \<Longrightarrow> receiver_ok rx ch w \<Longrightarrow> ch \<notin> D \<Longrightarrow> receiver_ok rx ch w'"
  unfolding quiet_def receiver_ok_def by blast

lemma routes_inner: "inner w' = inner w \<Longrightarrow> routes E w' = routes E w"
  by (simp add: routes_def fun_eq_iff)

lemma quiet_group:
  assumes "quiet D w w'" and "group_ok hs subs dropped w b"
    and "\<And>k. gb_chan b \<in> D \<Longrightarrow> tasks w' (gb_task b) = Some k \<Longrightarrow> \<not> task_active k"
  shows "group_ok hs subs dropped w' b"
proof -
  obtain d k where d: "reqs w (gb_req b) = Some d"
      "rtxs d = of_bool (grp_req_count (groups w (gb_group b)) \<noteq> 0)"
    and k: "tasks w (gb_task b) = Some k" "task_main k = gb_chan b" "task_req k = gb_req b"
      "task_slot k = gb_slot b" "task_address k = gb_address b"
      "task_active k \<Longrightarrow> receiver_ok rx (gb_chan b) w \<and> rrx d"
    using assms(2) unfolding group_ok_def group_task_ok_def by blast
  have "rel_option same_task (tasks w (gb_task b)) (tasks w' (gb_task b))" by (rule quietD(5) [OF assms(1)])
  then obtain k' where k': "tasks w' (gb_task b) = Some k'" "same_task k k'"
    using k(1) by (auto simp: option_rel_Some1)
  have "\<exists>d'. reqs w' (gb_req b) = Some d' \<and> rtxs d' = rtxs d \<and>
      (rrx d' \<or> \<not> rrx d \<or> (\<forall>t k. tasks w' t = Some k \<and> task_req k = gb_req b \<longrightarrow> \<not> task_active k))"
    using assms(1) d(1) by (simp add: quiet_def)
  moreover have "task_req k' = gb_req b" using k'(2) k(3) by (simp add: same_task_def)
  ultimately obtain d' where d': "reqs w' (gb_req b) = Some d'" "rtxs d' = rtxs d"
      "rrx d' \<or> \<not> rrx d \<or> \<not> task_active k'"
    using k'(1) by blast
  have act: "task_active k' \<Longrightarrow> receiver_ok rx (gb_chan b) w' \<and> rrx d'"
    using assms(3) [OF _ k'(1)] k(6) k'(2) d'(3) quiet_receiver [OF assms(1)]
    by (auto simp: same_task_def)
  have "same_groups w w'" by (rule quietD(3) [OF assms(1)])
  then show ?thesis
    using assms(2) quiet_channel [OF assms(1)] act d' d(2) k k'
    by (auto simp: group_ok_def group_task_ok_def same_task_def same_groups_def)
qed

lemma quiet_inv:
  assumes inv: "process_inv p" and q: "quiet D (ps_world p) w'"
    and ex: "\<And>e. e \<in> set (ps_exclusive p) \<Longrightarrow> eb_chan e \<in> D \<Longrightarrow>
      (case eb_listener e of None \<Rightarrow> eb_chan e \<notin> set (push_chans (ps_subs p))
        | Some r \<Rightarrow> rd_pc (dispatchers w' r) = ListenerEnded)"
    and gr: "\<And>b k. b \<in> set (ps_groups p) \<Longrightarrow> gb_chan b \<in> D \<Longrightarrow> tasks w' (gb_task b) = Some k \<Longrightarrow> \<not> task_active k"
  shows "process_inv (p\<lparr>ps_world := w'\<rparr>)"
proof -
  let ?w = "ps_world p"
  have same: "inner w' = inner ?w" "slots w' = slots ?w" "next_id ?w \<le> next_id w'"
    and rd: "\<And>r. rd_chan (dispatchers w' r) = rd_chan (dispatchers ?w r)"
      "\<And>r. rd_pc (dispatchers w' r) \<noteq> ListenerEnded \<Longrightarrow> rd_pc (dispatchers ?w r) \<noteq> ListenerEnded"
    and tk: "\<And>t. rel_option same_task (tasks ?w t) (tasks w' t)"
    using quietD [OF q] by blast+
  note r = routes_inner [OF same(1)]
  have "registry_reachable E w'"
    using reach_step [OF process_invD(1) [OF inv] step_other [OF same(1)]] .
  moreover have "ids_ok (p\<lparr>ps_world := w'\<rparr>)"
    using process_invD(3) [OF inv] same by (simp add: ids_ok_def) (meson less_le_trans)
  moreover have "owned_ok (p\<lparr>ps_world := w'\<rparr>)"
  proof -
    have "tasks w' t \<noteq> None \<Longrightarrow> tasks ?w t \<noteq> None" for t using tk [of t] by (cases "tasks ?w t") auto
    then show ?thesis using process_invD(4) [OF inv] rd(2) by (simp add: owned_ok_def)
  qed
  moreover have "routes_ok (p\<lparr>ps_world := w'\<rparr>)"
    using process_invD(5) [OF inv] by (simp add: routes_ok_def r)
  moreover have "exclusive_ok (ps_handles p) (ps_subs p) w' e" if "e \<in> set (ps_exclusive p)" for e
    using process_invD(6) [OF inv that] quiet_channel [OF q] quiet_receiver [OF q] ex [OF that] rd
    by (auto simp: exclusive_ok_def same(2) r split: option.splits)
  moreover have "group_ok (ps_handles p) (ps_subs p) (ps_dropped p) w' b" if "b \<in> set (ps_groups p)" for b
    using quiet_group [OF q process_invD(7) [OF inv that]] gr [OF that] by blast
  ultimately show ?thesis by (simp add: process_inv_def)
qed

lemma rel_same_task_refl [simp]: "rel_option same_task k k"
  by (cases k) (simp_all add: same_task_def)

lemma quiet_trans:
  assumes "quiet D w w1" and "quiet D' w1 w2"
  shows "quiet (D \<union> D') w w2"
proof -
  have tr: "rel_option same_task (tasks w t) (tasks w2 t)" for t
  proof -
    have "rel_option same_task (tasks w t) (tasks w1 t)" "rel_option same_task (tasks w1 t) (tasks w2 t)"
      using quietD(5) [OF assms(1)] quietD(5) [OF assms(2)] by blast+
    then show ?thesis
      by (cases "tasks w t"; cases "tasks w1 t"; cases "tasks w2 t") (auto simp: same_task_def)
  qed
  have idle: "\<not> task_active k2" if "\<forall>t k. tasks w1 t = Some k \<and> task_req k = r \<longrightarrow> \<not> task_active k"
      "tasks w2 t = Some k2" "task_req k2 = r" for r t k2
  proof -
    have "rel_option same_task (tasks w1 t) (tasks w2 t)" by (rule quietD(5) [OF assms(2)])
    then show ?thesis using that by (cases "tasks w1 t") (auto simp: same_task_def)
  qed
  have rq: "\<exists>d'. reqs w2 r = Some d' \<and> rtxs d' = rtxs d \<and>
      (rrx d' \<or> \<not> rrx d \<or> (\<forall>t k. tasks w2 t = Some k \<and> task_req k = r \<longrightarrow> \<not> task_active k))"
    if d: "reqs w r = Some d" for r d
  proof -
    obtain d1 where d1: "reqs w1 r = Some d1" "rtxs d1 = rtxs d"
        "rrx d1 \<or> \<not> rrx d \<or> (\<forall>t k. tasks w1 t = Some k \<and> task_req k = r \<longrightarrow> \<not> task_active k)"
      using assms(1) d unfolding quiet_def by blast
    obtain d2 where d2: "reqs w2 r = Some d2" "rtxs d2 = rtxs d1"
        "rrx d2 \<or> \<not> rrx d1 \<or> (\<forall>t k. tasks w2 t = Some k \<and> task_req k = r \<longrightarrow> \<not> task_active k)"
      using assms(2) d1(1) unfolding quiet_def by blast
    show ?thesis using d1 d2 idle by metis
  qed
  have ch: "\<exists>c'. chans w2 ch = Some c' \<and> txs c' = txs c \<and> (ch \<notin> D \<union> D' \<and> rx c \<longrightarrow> rx c')"
    if c: "chans w ch = Some c" for ch c
  proof -
    obtain c1 where c1: "chans w1 ch = Some c1" "txs c1 = txs c" "ch \<notin> D \<and> rx c \<longrightarrow> rx c1"
      using assms(1) c unfolding quiet_def by blast
    obtain c2 where "chans w2 ch = Some c2" "txs c2 = txs c1" "ch \<notin> D' \<and> rx c1 \<longrightarrow> rx c2"
      using assms(2) c1(1) unfolding quiet_def by blast
    with c1 show ?thesis by auto
  qed
  have fr: "inner w2 = inner w" "slots w2 = slots w" "same_groups w w2" "next_id w \<le> next_id w2"
    and rd: "\<forall>r. rd_chan (dispatchers w2 r) = rd_chan (dispatchers w r) \<and>
      (rd_pc (dispatchers w2 r) \<noteq> ListenerEnded \<longrightarrow> rd_pc (dispatchers w r) \<noteq> ListenerEnded)"
    using quietD [OF assms(1)] quietD [OF assms(2)] same_groups_trans by (simp, simp, blast, simp, metis)
  show ?thesis by (rule quietI [OF fr]) (use tr rq ch rd in blast)+
qed

lemma quiet_seq: "quiet {} w w1 \<Longrightarrow> quiet {} w1 w2 \<Longrightarrow> quiet {} w w2"
  using quiet_trans by fastforce

text \<open>Changes of reply cells, waiters and the allocation counter alone.\<close>

lemma quiet_cells:
  assumes "inner w' = inner w" "slots w' = slots w" "groups w' = groups w" "chans w' = chans w"
    "reqs w' = reqs w" "tasks w' = tasks w" "next_id w \<le> next_id w'"
    "\<And>r. rd_chan (dispatchers w' r) = rd_chan (dispatchers w r)"
    "\<And>r. rd_pc (dispatchers w' r) = rd_pc (dispatchers w r)"
  shows "quiet {} w w'"
  using assms by (simp add: quiet_def)

lemma quiet_refl [simp]: "quiet {} w w"
  by (rule quiet_cells) simp_all

text \<open>An update of one channel that keeps its senders and its receiver.\<close>

lemma quiet_chan:
  assumes "chans w ch = Some c" and "txs c' = txs c" and "rx c'"
  shows "quiet {} w (w\<lparr>chans := (chans w)(ch \<mapsto> c')\<rparr>)"
  using assms by (simp add: quiet_def)

lemma quiet_chan_send: "chan_send E ch m w = Ready (Inr w') \<Longrightarrow> quiet {} w w'"
proof -
  assume s: "chan_send E ch m w = Ready (Inr w')"
  then obtain c where c: "chans w ch = Some c" by (auto simp: chan_send_def split: option.splits)
  have "rx c" using s chan_send_gone [OF c] by force
  then show ?thesis
    by (cases rule: chan_send_cases [OF c, of m]) (use s c quiet_chan in auto)
qed

lemma quiet_endpoint_send: "endpoint_send E ep m w = Ready (Inr w') \<Longrightarrow> quiet {} w w'"
  by (auto simp: endpoint_send_def target_send_def slot_send_def intro: quiet_chan_send
      split: route_target.splits option.splits poll.splits sum.splits)

lemma quiet_client_send: "client_send E m w = Ready (Inr w') \<Longrightarrow> quiet {} w w'"
  by (auto simp: client_send_def transport_send_def intro: quiet_endpoint_send split: option.splits sum.splits)

lemma quiet_resume: "send_resume E ch m w = Ready (Inr w') \<Longrightarrow> quiet {} w w'"
  by (auto simp: send_resume_def intro: quiet_chan_send split: poll.splits sum.splits)

lemma quiet_drop_cell: "quiet {} w (oneshot_drop_rx E i w)" "quiet {} w (oneshot_drop_tx E i w)"
  by (rule quiet_cells; simp add: oneshot_drop_rx_def oneshot_drop_tx_def)+

lemma quiet_upd_waiters:
  "quiet {} w (upd_dispatcher r (\<lambda>d. d\<lparr>rd_waiters := f d\<rparr>) w)"
  by (rule quiet_cells) (simp_all add: upd_dispatcher_def)

lemma quiet_remove_waiter: "quiet {} w (remove_waiter E r mid w)"
  using quiet_seq [OF quiet_upd_waiters quiet_drop_cell(2)]
  by (auto simp: remove_waiter_def split: option.split)

lemma quiet_register_waiter: "register_waiter E r mid w = (q, w') \<Longrightarrow> quiet {} w w'"
  by (auto simp: register_waiter_def Let_def upd_dispatcher_def fresh_def split: if_splits intro!: quiet_cells)

lemma quiet_request_end: "quiet {} w (request_end E rq w)"
  unfolding request_end_def by (rule quiet_seq [OF quiet_drop_cell(1) quiet_remove_waiter])

lemma quiet_request_await: "request_await E elapsed rq w = (q, w') \<Longrightarrow> quiet {} w w'"
  by (auto simp: request_await_def quiet_request_end split: option.splits poll.splits if_splits)

lemma quiet_request_sent:
  assumes "request_sent E elapsed rq pc sent w = (q, w')" and "\<And>v. sent = Ready (Inr v) \<Longrightarrow> quiet {} w v"
  shows "quiet {} w w'"
  using assms
  by (auto simp: request_sent_def quiet_request_end split: poll.splits sum.splits
      dest: quiet_request_await intro: quiet_seq)

lemma quiet_request_poll: "request_poll E (in_memory E) elapsed rq w = (q, w') \<Longrightarrow> quiet {} w w'"
  by (auto simp: request_poll_def split: request_pc.splits
      intro: quiet_request_sent quiet_request_await quiet_resume)

lemma quiet_request_begin:
  assumes "request_begin E (in_memory E) elapsed r find_ep m w = (q, w')"
  shows "quiet {} w w'"
proof -
  obtain q1 w1 where r: "register_waiter E r (message_id (header m)) w = (q1, w1)" by fastforce
  have "quiet {} w1 w'"
    using assms r
    by (auto simp: request_begin_def Let_def quiet_request_end split: sum.splits
        intro: quiet_request_sent quiet_endpoint_send)
  then show ?thesis by (rule quiet_seq [OF quiet_register_waiter [OF r]])
qed


lemma quiet_drop_rx: "quiet {ch} w (chan_drop_rx E ch w)"
  using msgs.mp_drop_rx_eq by (simp add: quiet_def chan_drop_rx_def)

lemma quiet_listener_pc:
  "pc = ListenerEnded \<or> rd_pc (dispatchers w r) \<noteq> ListenerEnded \<Longrightarrow>
   quiet {} w (upd_dispatcher r (\<lambda>d. d\<lparr>rd_pc := pc\<rparr>) w)"
  by (auto simp: quiet_def upd_dispatcher_def)

lemma quiet_reply_send: "reply_send E tok m w = Inr w' \<Longrightarrow> quiet {} w w'"
  by (auto simp: reply_send_def intro!: quiet_cells split: option.splits sum.splits)

lemma quiet_dispatch_reply: "quiet {} w (dispatch_reply E r m w)"
  using quiet_seq [OF quiet_upd_waiters quiet_reply_send] quiet_upd_waiters
  by (fastforce simp: dispatch_reply_def Let_def split: option.split sum.split)

lemma quiet_fold_drop: "quiet {} w (fold (oneshot_drop_tx E) is w)"
  by (induction "is" arbitrary: w) (auto intro: quiet_seq quiet_drop_cell)

lemma quiet_replies_drop: "quiet {} w (reply_dispatcher_drop E r w)"
proof -
  have "quiet {} w (upd_dispatcher r (\<lambda>d. d\<lparr>rd_abort := True, rd_waiters := []\<rparr>) w)"
    by (rule quiet_cells) (simp_all add: upd_dispatcher_def)
  then show ?thesis unfolding reply_dispatcher_drop_def by (rule quiet_seq [OF _ quiet_fold_drop])
qed

lemma quiet_request_token:
  assumes "reqs w r = Some d" and "request_sender_request (d_reqs E) (d_oneshots E) tok d = Ready (Inr (d', cell))"
  shows "quiet {} w (fresh w\<lparr>reqs := (reqs w)(r \<mapsto> d'), oneshots := os\<rparr>)"
proof -
  have s: "sender_send (d_reqs E) tok d = Ready (Inr d')"
    using assms(2) by (auto simp: request_sender_request_def split: poll.splits sum.splits)
  have "rrx d" using s requests.mp_send_closed [of d tok] by (cases "rrx d") (simp_all add: sender_send_def)
  then have "rtxs d' = rtxs d \<and> rrx d'"
    by (cases rule: requests.sender_send_cases [of d tok]) (use s in auto)
  with assms(1) show ?thesis by (simp add: quiet_def fresh_def)
qed

lemma quiet_recv_item:
  assumes "chans w ch = Some c" and "rx c" and "receiver_recv (d_msgs E) c = Ready (Some (m, c'))"
  shows "quiet {} w (w\<lparr>chans := (chans w)(ch \<mapsto> c')\<rparr>)"
  by (cases rule: msgs.receiver_recv_cases [OF assms(2)]) (use assms quiet_chan in auto)

lemma quiet_recv:
  assumes "\<And>ch. sub_mode sub = Push ch \<Longrightarrow> receiver_ok rx ch w" and "recv_poll E sub pc w = (q, pc', w')"
  shows "quiet {} w w'"
proof (cases "sub_mode sub")
  case (Push ch)
  then obtain c where "chans w ch = Some c" "rx c" using assms(1) by (auto simp: receiver_ok_def)
  with assms(2) Push quiet_recv_item show ?thesis
    by (auto simp: recv_poll_def split: poll.splits option.splits)
next
  case (Pull r g)
  have cell: "cell_poll E tok v = (q, pc', w') \<Longrightarrow> w' = v" for tok v
    by (auto simp: cell_poll_def split: option.splits)
  show ?thesis
    using assms(2) Pull
    by (auto simp: recv_poll_def split: poll.splits option.splits recv_pc.splits sum.splits
        dest!: cell intro: quiet_request_token)
qed

lemma quiet_try_recv:
  assumes "\<And>ch. sub_mode sub = Push ch \<Longrightarrow> receiver_ok rx ch w" and "subscriber_try_recv E sub w = (q, w')"
  shows "quiet {} w w'"
proof (cases "sub_mode sub")
  case (Push ch)
  then obtain c where c: "chans w ch = Some c" "rx c" using assms(1) by (auto simp: receiver_ok_def)
  show ?thesis
    by (cases rule: msgs.receiver_try_recv_cases [OF c(2)])
      (use assms(2) Push c quiet_chan in \<open>auto simp: subscriber_try_recv_def\<close>)
qed (use assms(2) in \<open>simp add: subscriber_try_recv_def\<close>)

lemma quiet_set_pc:
  assumes "tasks w t = Some k" and "task_active k"
  shows "quiet {} w (set_pc t pc w)"
proof -
  have "same_task k (k\<lparr>task_pc := pc\<rparr>)" using assms(2) by (simp add: same_task_def)
  then show ?thesis using assms(1) by (auto simp: quiet_def set_pc_def)
qed

lemma quiet_task_recv_message:
  assumes "receiver_ok rx (task_main k) w" and "task_recv_message E k w = Ready (Some (m, w'))"
  shows "quiet {} w w'"
  using assms quiet_recv_item
  by (fastforce simp: receiver_ok_def task_recv_message_def split: option.splits poll.splits)

lemma quiet_task_recv_request:
  assumes "reqs w (task_req k) = Some d" and "rrx d" and "task_recv_request E k w = Ready (Some (tok, w'))"
  shows "quiet {} w w'"
  by (cases rule: requests.receiver_recv_cases [OF assms(2)])
    (use assms in \<open>auto simp: task_recv_request_def quiet_def\<close>)

lemma drop_receivers_effect [frame_simps]:
  "chans (drop_receivers E k w) =
     (chans w)(task_main k := map_option (mp_drop_rx (d_msgs E)) (chans w (task_main k)))"
  "reqs (drop_receivers E k w) =
     (reqs w)(task_req k := map_option (mp_drop_rx (d_reqs E)) (reqs w (task_req k)))"
  "dispatchers (drop_receivers E k w) = dispatchers w" "next_id (drop_receivers E k w) = next_id w"
  by (auto simp: drop_receivers_def drop_req_rx_def chan_drop_rx_def req_drop_rx_def frame_simps
      split: option.split)

text \<open>A task that ends drops its receivers; no other task reads its request channel.\<close>

lemma quiet_end_task:
  assumes "tasks w t = Some k" and "task_active k" and "pc = Finished \<or> pc = Aborted"
    and "\<And>t' k'. tasks w t' = Some k' \<Longrightarrow> task_req k' = task_req k \<Longrightarrow> t' = t"
  shows "quiet {task_main k} w (set_pc t pc (drop_receivers E k w))"
proof -
  let ?w' = "set_pc t pc (drop_receivers E k w)"
  have tk: "tasks ?w' = (tasks w)(t \<mapsto> k\<lparr>task_pc := pc\<rparr>)"
    using assms(1) by (simp add: set_pc_def frame_simps)
  have idle: "\<not> task_active k'" if "tasks ?w' t' = Some k'" "task_req k' = task_req k" for t' k'
    using that assms(3,4) tk by (auto simp: task_active_def split: if_splits)
  have rel: "\<forall>t'. rel_option same_task (tasks w t') (tasks ?w' t')"
    using assms(1,2) tk by (simp add: same_task_def)
  have ch: "\<forall>ch c. chans w ch = Some c \<longrightarrow>
      (\<exists>c'. chans ?w' ch = Some c' \<and> txs c' = txs c \<and> (ch \<notin> {task_main k} \<and> rx c \<longrightarrow> rx c'))"
    using msgs.mp_drop_rx_eq(3) by (simp add: frame_simps)
  have rq: "\<forall>r d. reqs w r = Some d \<longrightarrow> (\<exists>d'. reqs ?w' r = Some d' \<and> rtxs d' = rtxs d \<and>
      (rrx d' \<or> \<not> rrx d \<or> (\<forall>t k. tasks ?w' t = Some k \<and> task_req k = r \<longrightarrow> \<not> task_active k)))"
  proof (intro allI impI)
    fix r d assume d: "reqs w r = Some d"
    show "\<exists>d'. reqs ?w' r = Some d' \<and> rtxs d' = rtxs d \<and>
        (rrx d' \<or> \<not> rrx d \<or> (\<forall>t k. tasks ?w' t = Some k \<and> task_req k = r \<longrightarrow> \<not> task_active k))"
    proof (cases "r = task_req k")
      case True
      then have "reqs ?w' r = Some (mp_drop_rx (d_reqs E) d)" using d by (simp add: frame_simps)
      then show ?thesis using idle True requests.mp_drop_rx_eq(3) by blast
    qed (use d in \<open>simp add: frame_simps\<close>)
  qed
  have fr: "inner ?w' = inner w" "slots ?w' = slots w" "same_groups w ?w'" "next_id ?w' = next_id w"
    "dispatchers ?w' = dispatchers w"
    by (simp_all add: frame_simps) (simp add: set_pc_def frame_simps)
  show ?thesis by (rule quietI [OF fr(1-3) _ ch rel rq]) (simp_all add: fr)
qed

text \<open>Aborting a dispatcher and counting a version leave everything the invariant speaks of.\<close>

lemma quiet_take_handle: "quiet {} w (take_handle g w)"
proof -
  have "same_groups w (take_handle g w)" by (simp add: same_groups_def frame_simps)
  moreover have "rel_option same_task (tasks w t) (tasks (take_handle g w) t)" for t
    by (cases "tasks w t")
      (auto simp: take_handle_def task_request_abort_def same_task_def task_active_def split: option.split)
  moreover have "dispatchers (take_handle g w) = dispatchers w"
    by (simp add: take_handle_def task_request_abort_def split: option.split)
  ultimately show ?thesis by (intro quietI) (simp_all add: frame_simps)
qed

lemma quiet_groups: "same_groups w (w\<lparr>groups := gs\<rparr>) \<Longrightarrow> quiet {} w (w\<lparr>groups := gs\<rparr>)"
  by (rule quietI) simp_all

lemma quiet_version:
  "quiet {} w (w\<lparr>groups := (groups w)(g := (groups w g)\<lparr>grp_version := v\<rparr>)\<rparr>)"
proof (rule quiet_groups)
  show "same_groups w (w\<lparr>groups := (groups w)(g := (groups w g)\<lparr>grp_version := v\<rparr>)\<rparr>)"
    unfolding same_groups_def by simp
qed

end

end
