(* ===== verification/Process_Tasks.thy ===== *)
theory Process_Tasks
  imports Process_Inv
begin

text \<open>
  The steps of background tasks and the moving of messages keep the invariant of a process: sends,
  receives and requests, the listeners of clients, and the dispatchers of load-balanced groups up to
  their end, when a group closes its slot and unregisters its own address.
\<close>

section \<open>Bindings are disjoint\<close>

lemma concat_map_unique:
  "distinct (concat (map f xs)) \<Longrightarrow> x \<in> set xs \<Longrightarrow> y \<in> set xs \<Longrightarrow> i \<in> set (f x) \<Longrightarrow> i \<in> set (f y) \<Longrightarrow> x = y"
  by (induction xs) auto

lemma eb_unique:
  "ids_ok p \<Longrightarrow> e \<in> set (ps_exclusive p) \<Longrightarrow> e' \<in> set (ps_exclusive p) \<Longrightarrow>
   i \<in> set (eb_ids e) \<Longrightarrow> i \<in> set (eb_ids e') \<Longrightarrow> e = e'"
  by (rule concat_map_unique [of eb_ids "ps_exclusive p"]) (simp_all add: ids_ok_def binding_ids_def)

lemma gb_unique:
  "ids_ok p \<Longrightarrow> b \<in> set (ps_groups p) \<Longrightarrow> b' \<in> set (ps_groups p) \<Longrightarrow>
   i \<in> set (gb_ids b) \<Longrightarrow> i \<in> set (gb_ids b') \<Longrightarrow> b = b'"
  by (rule concat_map_unique [of gb_ids "ps_groups p"]) (simp_all add: ids_ok_def binding_ids_def)

lemma eb_gb_disjoint:
  "ids_ok p \<Longrightarrow> e \<in> set (ps_exclusive p) \<Longrightarrow> b \<in> set (ps_groups p) \<Longrightarrow>
   i \<in> set (eb_ids e) \<Longrightarrow> i \<notin> set (gb_ids b)"
  by (auto simp: ids_ok_def binding_ids_def)

lemma eb_ids_simps [simp]: "eb_chan e \<in> set (eb_ids e)" "eb_slot e \<in> set (eb_ids e)"
  "eb_listener e = Some r \<Longrightarrow> r \<in> set (eb_ids e)"
  by (simp_all add: eb_ids_def)

lemma eb_slot_inj:
  "ids_ok p \<Longrightarrow> e' \<in> set (ps_exclusive p) \<Longrightarrow> e \<in> set (ps_exclusive p) \<Longrightarrow> eb_slot e' = eb_slot e \<Longrightarrow> e' = e"
  by (metis eb_unique eb_ids_simps(2))

lemma eb_chan_inj:
  "ids_ok p \<Longrightarrow> e' \<in> set (ps_exclusive p) \<Longrightarrow> e \<in> set (ps_exclusive p) \<Longrightarrow> eb_chan e' = eb_chan e \<Longrightarrow> e' = e"
  by (metis eb_unique eb_ids_simps(1))

lemma gb_ids_simps [simp]: "gb_chan b \<in> set (gb_ids b)" "gb_slot b \<in> set (gb_ids b)"
  "gb_req b \<in> set (gb_ids b)" "gb_group b \<in> set (gb_ids b)" "gb_task b \<in> set (gb_ids b)"
  by (simp_all add: gb_ids_def)

lemma inner_update_ok [simp]:
  "slot_channel_ok txs s ch (w\<lparr>inner := i\<rparr>) \<longleftrightarrow> slot_channel_ok txs s ch w"
  "receiver_ok rx ch (w\<lparr>inner := i\<rparr>) \<longleftrightarrow> receiver_ok rx ch w"
  "slot_channel_ok txs s ch (w\<lparr>groups := gs\<rparr>) \<longleftrightarrow> slot_channel_ok txs s ch w"
  "receiver_ok rx ch (w\<lparr>groups := gs\<rparr>) \<longleftrightarrow> receiver_ok rx ch w"
  by (simp_all add: slot_channel_ok_def receiver_ok_def)

lemma owned_okD:
  assumes "owned_ok p"
  shows "\<And>h. h \<in> set (ps_handles p) \<Longrightarrow> exclusive_handle h \<Longrightarrow> h \<in> eb_handle ` set (ps_exclusive p)"
    and "distinct (filter exclusive_handle (ps_handles p))"
    and "\<And>a g. HandleLoadBalanced a g \<in> set (ps_handles p) \<or> (a, g) \<in> set (ps_joining p) \<Longrightarrow>
      g \<notin> set (ps_dropped p) \<and> (\<exists>b\<in>set (ps_groups p). gb_group b = g \<and> gb_address b = a)"
    and "distinct (push_chans (ps_subs p))"
    and "\<And>ch. ch \<in> set (push_chans (ps_subs p)) \<Longrightarrow> \<exists>e\<in>set (ps_exclusive p). eb_chan e = ch \<and> eb_listener e = None"
    and "\<And>sub r g. sub \<in> set (ps_subs p) \<Longrightarrow> sub_mode sub = Pull r g \<Longrightarrow>
      \<exists>b\<in>set (ps_groups p). gb_group b = g \<and> gb_req b = r"
    and "\<And>t. tasks (ps_world p) t \<noteq> None \<Longrightarrow> t \<in> gb_task ` set (ps_groups p)"
    and "\<And>r. rd_pc (dispatchers (ps_world p) r) \<noteq> ListenerEnded \<Longrightarrow> Some r \<in> eb_listener ` set (ps_exclusive p)"
    and "set (ps_dropped p) \<subseteq> gb_group ` set (ps_groups p)"
  using assms unfolding owned_ok_def by blast+

lemma owned_okI:
  assumes "\<And>h. h \<in> set (ps_handles p) \<Longrightarrow> exclusive_handle h \<Longrightarrow> h \<in> eb_handle ` set (ps_exclusive p)"
    and "distinct (filter exclusive_handle (ps_handles p))"
    and "\<And>a g. HandleLoadBalanced a g \<in> set (ps_handles p) \<or> (a, g) \<in> set (ps_joining p) \<Longrightarrow>
      g \<notin> set (ps_dropped p) \<and> (\<exists>b\<in>set (ps_groups p). gb_group b = g \<and> gb_address b = a)"
    and "distinct (push_chans (ps_subs p))"
    and "\<And>ch. ch \<in> set (push_chans (ps_subs p)) \<Longrightarrow> \<exists>e\<in>set (ps_exclusive p). eb_chan e = ch \<and> eb_listener e = None"
    and "\<And>sub r g. sub \<in> set (ps_subs p) \<Longrightarrow> sub_mode sub = Pull r g \<Longrightarrow>
      \<exists>b\<in>set (ps_groups p). gb_group b = g \<and> gb_req b = r"
    and "\<And>t. tasks (ps_world p) t \<noteq> None \<Longrightarrow> t \<in> gb_task ` set (ps_groups p)"
    and "\<And>r. rd_pc (dispatchers (ps_world p) r) \<noteq> ListenerEnded \<Longrightarrow> Some r \<in> eb_listener ` set (ps_exclusive p)"
    and "set (ps_dropped p) \<subseteq> gb_group ` set (ps_groups p)"
  shows "owned_ok p"
  unfolding owned_ok_def using assms by blast

context env
begin

lemma push_receiver:
  assumes "process_inv p" and "sub \<in> set (ps_subs p)" and "sub_mode sub = Push ch"
  shows "receiver_ok rx ch (ps_world p)"
proof -
  have "ch \<in> set (push_chans (ps_subs p))" using assms(2,3) set_push_chans by blast
  moreover from this obtain e where "e \<in> set (ps_exclusive p)" "eb_chan e = ch" "eb_listener e = None"
    using process_invD(4) [OF assms(1)] by (auto simp: owned_ok_def)
  ultimately show ?thesis using process_invD(6) [OF assms(1)] by (fastforce simp: exclusive_ok_def)
qed

lemma listener_binding:
  assumes "process_inv p" and "rd_pc (dispatchers (ps_world p) r) \<noteq> ListenerEnded"
  obtains e where "e \<in> set (ps_exclusive p)" "eb_listener e = Some r"
    "rd_chan (dispatchers (ps_world p) r) = eb_chan e" "receiver_ok rx (eb_chan e) (ps_world p)"
proof -
  have "Some r \<in> eb_listener ` set (ps_exclusive p)"
    using process_invD(4) [OF assms(1)] assms(2) by (simp add: owned_ok_def)
  then obtain e where e: "e \<in> set (ps_exclusive p)" "eb_listener e = Some r" by auto
  then show thesis
    using that [OF e] process_invD(6) [OF assms(1) e(1)] assms(2) by (simp add: exclusive_ok_def)
qed

lemma handle_binding:
  assumes "process_inv p" and "HandleExclusive a s \<in> set (ps_handles p)"
  obtains e where "e \<in> set (ps_exclusive p)" "eb_address e = a" "eb_slot e = s" "eb_handle e = HandleExclusive a s"
proof -
  have "HandleExclusive a s \<in> eb_handle ` set (ps_exclusive p)"
    using process_invD(4) [OF assms(1)] assms(2) by (fastforce simp: owned_ok_def)
  then show thesis using that by (auto simp: eb_handle_def)
qed

lemma route_exclusive:
  assumes "process_inv p" and "routes E (ps_world p) a = Some (Single s)"
  obtains e where "e \<in> set (ps_exclusive p)" "eb_address e = a" "eb_slot e = s"
    "HandleExclusive a s \<in> set (ps_handles p)"
proof -
  have "HandleExclusive a s \<in> set (ps_handles p)"
    using process_invD(5) [OF assms(1)] assms(2) by (simp add: routes_ok_def)
  then show thesis using handle_binding [OF assms(1)] that by metis
qed

lemma route_group:
  assumes "process_inv p" and "routes E (ps_world p) a = Some (LoadBalanced g)"
  obtains b where "b \<in> set (ps_groups p)" "gb_group b = g" "gb_address b = a" "g \<notin> set (ps_dropped p)"
  using process_invD(5) [OF assms(1)] assms(2) that by (auto simp: routes_ok_def)

lemma task_binding:
  assumes "process_inv p" and "tasks (ps_world p) t = Some k"
  obtains b d where "b \<in> set (ps_groups p)" "gb_task b = t" "task_main k = gb_chan b" "task_req k = gb_req b"
    "task_slot k = gb_slot b" "task_address k = gb_address b" "reqs (ps_world p) (gb_req b) = Some d"
    "task_active k \<Longrightarrow> receiver_ok rx (gb_chan b) (ps_world p) \<and> rrx d"
proof -
  have "t \<in> gb_task ` set (ps_groups p)"
    using process_invD(4) [OF assms(1)] assms(2) by (simp add: owned_ok_def)
  then obtain b where b: "b \<in> set (ps_groups p)" "gb_task b = t" by auto
  have "group_ok (ps_handles p) (ps_subs p) (ps_dropped p) (ps_world p) b"
    using process_invD(7) [OF assms(1) b(1)] .
  then obtain d k' where "reqs (ps_world p) (gb_req b) = Some d" "tasks (ps_world p) (gb_task b) = Some k'"
      "task_main k' = gb_chan b" "task_req k' = gb_req b" "task_slot k' = gb_slot b"
      "task_address k' = gb_address b" "task_active k' \<longrightarrow> receiver_ok rx (gb_chan b) (ps_world p) \<and> rrx d"
    unfolding group_ok_def group_task_ok_def by blast
  then show thesis using that [of b d] b assms(2) by auto
qed

lemma task_req_unique:
  assumes "process_inv p" and "tasks (ps_world p) t = Some k" and "tasks (ps_world p) t' = Some k'"
    and "task_req k' = task_req k"
  shows "t' = t"
  using task_binding [OF assms(1,2)] task_binding [OF assms(1,3)] assms(4)
    gb_unique [OF process_invD(3) [OF assms(1)]] gb_ids_simps(3) by metis

text \<open>A listener that ends, and a task that ends, take only their own channel along.\<close>

lemma listener_end_inv:
  assumes inv: "process_inv p" and pc: "rd_pc (dispatchers (ps_world p) r) \<noteq> ListenerEnded"
  shows "process_inv (p\<lparr>ps_world := chan_drop_rx E (rd_chan (dispatchers (ps_world p) r))
    (upd_dispatcher r (\<lambda>d. d\<lparr>rd_pc := ListenerEnded\<rparr>) (ps_world p))\<rparr>)" (is "process_inv (p\<lparr>ps_world := ?w'\<rparr>)")
proof -
  obtain e where e: "e \<in> set (ps_exclusive p)" "eb_listener e = Some r"
      "rd_chan (dispatchers (ps_world p) r) = eb_chan e"
    using listener_binding [OF inv pc] by metis
  note ids = process_invD(3) [OF inv]
  have "quiet ({} \<union> {eb_chan e}) (ps_world p) ?w'"
    unfolding e(3) by (rule quiet_trans [OF quiet_listener_pc quiet_drop_rx]) simp
  then have q: "quiet {eb_chan e} (ps_world p) ?w'" by simp
  show ?thesis
  proof (rule quiet_inv [OF inv q])
    fix e' assume e': "e' \<in> set (ps_exclusive p)" "eb_chan e' \<in> {eb_chan e}"
    then have "eb_chan e \<in> set (eb_ids e')" using eb_ids_simps(1) [of e'] by simp
    then have "e' = e" using eb_unique [OF ids e'(1) e(1) _ eb_ids_simps(1)] by simp
    then show "case eb_listener e' of None \<Rightarrow> eb_chan e' \<notin> set (push_chans (ps_subs p))
        | Some r \<Rightarrow> rd_pc (dispatchers ?w' r) = ListenerEnded"
      using e(2) by (simp add: chan_drop_rx_def upd_dispatcher_def)
  next
    fix b k assume "b \<in> set (ps_groups p)" "gb_chan b \<in> {eb_chan e}"
    then show "\<not> task_active k" using eb_gb_disjoint [OF ids e(1), of b "eb_chan e"] by (auto simp: gb_ids_def)
  qed
qed

lemma task_end_inv:
  assumes inv: "process_inv p" and k: "tasks (ps_world p) t = Some k" "task_active k"
    and pc: "pc = Finished \<or> pc = Aborted"
  shows "process_inv (p\<lparr>ps_world := set_pc t pc (drop_receivers E k (ps_world p))\<rparr>)"
proof -
  obtain b where b: "b \<in> set (ps_groups p)" "gb_task b = t" "task_main k = gb_chan b"
    using task_binding [OF inv k(1)] by metis
  note ids = process_invD(3) [OF inv]
  have q: "quiet {task_main k} (ps_world p) (set_pc t pc (drop_receivers E k (ps_world p)))"
    using quiet_end_task [OF k pc] task_req_unique [OF inv k(1)] by blast
  show ?thesis
  proof (rule quiet_inv [OF inv q])
    fix e assume "e \<in> set (ps_exclusive p)" "eb_chan e \<in> {task_main k}"
    then have False using eb_gb_disjoint [OF ids _ b(1), of e "gb_chan b"] b(3) by (auto simp: eb_ids_def)
    then show "case eb_listener e of None \<Rightarrow> eb_chan e \<notin> set (push_chans (ps_subs p))
        | Some r \<Rightarrow> rd_pc (dispatchers (set_pc t pc (drop_receivers E k (ps_world p))) r) = ListenerEnded" ..
  next
    fix b' k' assume b': "b' \<in> set (ps_groups p)" "gb_chan b' \<in> {task_main k}"
      and k': "tasks (set_pc t pc (drop_receivers E k (ps_world p))) (gb_task b') = Some k'"
    have "gb_chan b \<in> set (gb_ids b')" using b'(2) b(3) gb_ids_simps(1) [of b'] by simp
    then have "b' = b" using gb_unique [OF ids b'(1) b(1) _ gb_ids_simps(1)] by simp
    then show "\<not> task_active k'" using k' b(2) k(1) pc by (auto simp: frame_simps task_active_def)
  qed
qed

lemma quiet_step_inv: "process_inv p \<Longrightarrow> quiet {} (ps_world p) w' \<Longrightarrow> process_inv (p\<lparr>ps_world := w'\<rparr>)"
  by (rule quiet_inv) auto

lemma listener_step_inv:
  assumes inv: "process_inv p" and st: "listener_step E r (ps_world p) = Some w'"
  shows "process_inv (p\<lparr>ps_world := w'\<rparr>)"
proof (cases "rd_pc (dispatchers (ps_world p) r)")
  case Listening
  then have pc: "rd_pc (dispatchers (ps_world p) r) \<noteq> ListenerEnded" by simp
  obtain c where c: "chans (ps_world p) (rd_chan (dispatchers (ps_world p) r)) = Some c" "rx c"
    using listener_binding [OF inv pc] by (metis receiver_ok_def)
  show ?thesis
  proof (cases rule: msgs.receiver_recv_cases [OF c(2)])
    case (1 m c')
    let ?v = "ps_world p\<lparr>chans := (chans (ps_world p))(rd_chan (dispatchers (ps_world p) r) \<mapsto> c')\<rparr>"
    have w': "w' = upd_dispatcher r (\<lambda>d. d\<lparr>rd_pc := Dispatching m\<rparr>) ?v"
      using st Listening c(1) 1 by (simp add: listener_step_def)
    have "quiet {} ?v w'" unfolding w' by (rule quiet_listener_pc) (simp add: pc)
    then have "quiet {} (ps_world p) w'" by (rule quiet_seq [OF quiet_recv_item [OF c 1(2)]])
    then show ?thesis by (rule quiet_step_inv [OF inv])
  next
    case 2
    then show ?thesis using st Listening c(1) by (simp add: listener_step_def)
  next
    case 3
    then show ?thesis using st Listening c(1) listener_end_inv [OF inv pc] by (simp add: listener_step_def)
  qed
next
  case (Dispatching m)
  have "rd_pc (dispatchers (dispatch_reply E r m (ps_world p)) r) \<noteq> ListenerEnded"
    using Dispatching
    by (auto simp: dispatch_reply_def Let_def frame_simps dest: reply_send_dispatchers split: option.split sum.split)
  then have "quiet {} (ps_world p) (upd_dispatcher r (\<lambda>d. d\<lparr>rd_pc := Listening\<rparr>) (dispatch_reply E r m (ps_world p)))"
    using quiet_seq [OF quiet_dispatch_reply quiet_listener_pc] by blast
  then show ?thesis using st Dispatching quiet_step_inv [OF inv] by (simp add: listener_step_def)
qed (use st in \<open>simp add: listener_step_def\<close>)

lemma dispatcher_abort_inv:
  assumes inv: "process_inv p" and st: "dispatcher_abort E t (ps_world p) = Some w'"
  shows "process_inv (p\<lparr>ps_world := w'\<rparr>)"
proof -
  obtain k where k: "tasks (ps_world p) t = Some k" "task_active k"
    using st by (auto simp: dispatcher_abort_def task_active_def split: option.splits if_splits dispatcher_pc.splits)
  have "process_inv (p\<lparr>ps_world := set_pc t Aborted (drop_receivers E k (oneshot_drop_tx E tok (ps_world p)))\<rparr>)" for tok
    using task_end_inv [OF quiet_step_inv [OF inv quiet_drop_cell(2) [of _ tok]], of t k Aborted] k
    by (simp add: frame_simps)
  with task_end_inv [OF inv k, of Aborted] show ?thesis
    using st k by (auto simp: dispatcher_abort_def split: if_splits dispatcher_pc.splits)
qed

lemma task_step_inv:
  assumes inv: "process_inv p" and st: "task_step E (set (ps_subs p)) (ps_world p) w'"
  shows "process_inv (p\<lparr>ps_world := w'\<rparr>)"
  using st
proof (cases rule: task_step.cases)
  case (ts_recv sub pc q pc')
  then show ?thesis using quiet_step_inv [OF inv quiet_recv] push_receiver [OF inv] by blast
next
  case (ts_try_recv sub q)
  then show ?thesis using quiet_step_inv [OF inv quiet_try_recv] push_receiver [OF inv] by blast
next
  case (ts_listener r)
  then show ?thesis by (rule listener_step_inv [OF inv])
next
  case (ts_listener_abort r)
  then show ?thesis using listener_end_inv [OF inv] by (auto simp: listener_abort_def split: if_splits)
next
  case (ts_dispatcher_abort t)
  then show ?thesis by (rule dispatcher_abort_inv [OF inv])
next
  case (ts_send m)
  then show ?thesis using quiet_step_inv [OF inv quiet_client_send] by blast
next
  case (ts_endpoint ep m)
  then show ?thesis using quiet_step_inv [OF inv quiet_endpoint_send] by blast
next
  case (ts_resume ch m)
  then show ?thesis using quiet_step_inv [OF inv quiet_resume] by blast
next
  case (ts_cancel i)
  then show ?thesis using quiet_step_inv [OF inv quiet_drop_cell(1)] by blast
next
  case (ts_request elapsed r find_ep m q)
  then show ?thesis using quiet_step_inv [OF inv quiet_request_begin] by blast
next
  case (ts_request_poll elapsed rq q)
  then show ?thesis using quiet_step_inv [OF inv quiet_request_poll] by blast
next
  case (ts_request_end rq)
  then show ?thesis using quiet_step_inv [OF inv quiet_request_end] by blast
next
  case (ts_replies_drop r)
  then show ?thesis using quiet_step_inv [OF inv quiet_replies_drop] by blast
qed

section \<open>Closing slots\<close>

lemma chan_drop_tx_receiver:
  "receiver_ok rx ch w \<Longrightarrow> receiver_ok rx ch (chan_drop_tx E ch' w)"
  using msgs.mp_drop_tx_eq(4) by (auto simp: receiver_ok_def chan_drop_tx_def)

lemma mark_removed_receiver: "receiver_ok rx ch w \<Longrightarrow> receiver_ok rx ch (mark_removed E s w)"
  using chan_drop_tx_receiver [of ch w]
  by (simp add: mark_removed_def drop_sender_def receiver_ok_def split: option.split)

lemma mark_removed_dispatchers [frame_simps]: "dispatchers (mark_removed E s w) = dispatchers w"
  by (simp add: mark_removed_def drop_sender_def chan_drop_tx_def split: option.split)

text \<open>Removing any slot keeps every slot in step with its channel.\<close>

lemma mark_removed_channel:
  assumes "slot_channel_ok txs s ch w"
  shows "slot_channel_ok txs s ch (mark_removed E s' w)"
proof -
  obtain c where c: "chans w ch = Some c" "txs c = of_bool (slot_sender (slots w s) \<noteq> None)"
    and own: "\<And>s'. slot_sender (slots w s') = Some ch \<Longrightarrow> s' = s"
    and snd: "slot_sender (slots w s) = None \<or> slot_sender (slots w s) = Some ch"
    using assms by (auto simp: slot_channel_ok_def)
  have "\<exists>c'. chans (mark_removed E s' w) ch = Some c' \<and>
      txs c' = of_bool (slot_sender (slots (mark_removed E s' w) s) \<noteq> None)"
  proof (cases "slot_sender (slots w s')")
    case None
    then show ?thesis using c by (auto simp: mark_removed_def drop_sender_def)
  next
    case (Some ch')
    then have "chans (mark_removed E s' w) ch =
        (if ch' = ch then Some (mp_drop_tx (d_msgs E) c) else Some c)"
      using c(1) by (simp add: mark_removed_def drop_sender_def chan_drop_tx_def)
    moreover have "ch' = ch \<longleftrightarrow> s' = s" using Some own [of s'] snd by auto
    ultimately show ?thesis
      using Some c(2) msgs.mp_drop_tx_eq(3) [of c] by (cases "s' = s") simp_all
  qed
  moreover have "slot_sender (slots (mark_removed E s' w) t) = Some ch \<Longrightarrow> t = s" for t
    using own by (simp split: if_splits)
  ultimately show ?thesis using snd unfolding slot_channel_ok_def by simp
qed

text \<open>The part of the invariant that does not depend on which slots are open.\<close>

lemma mark_removed_group:
  assumes "group_ok hs subs dropped w b"
  shows "group_ok hs subs dropped (mark_removed E s w) b"
  using assms mark_removed_channel [of "gb_slot b" "gb_chan b" w s] mark_removed_receiver [of "gb_chan b" w s]
  unfolding group_ok_def group_task_ok_def by (auto simp: frame_simps)

lemma close_slot_inv:
  assumes inv: "process_inv p" and b: "b \<in> set (ps_groups p)"
  shows "process_inv (p\<lparr>ps_world := mark_removed E (gb_slot b) (ps_world p)\<rparr>)"
proof -
  let ?w' = "mark_removed E (gb_slot b) (ps_world p)"
  have r: "routes E ?w' = routes E (ps_world p)" by (rule routes_inner) (simp add: frame_simps)
  have "registry_reachable E ?w'"
    using reach_step [OF process_invD(1) [OF inv] step_other] by (simp add: frame_simps)
  moreover have "ids_ok (p\<lparr>ps_world := ?w'\<rparr>)"
    using process_invD(3) [OF inv] by (auto simp: ids_ok_def frame_simps)
  moreover have "owned_ok (p\<lparr>ps_world := ?w'\<rparr>)"
    using process_invD(4) [OF inv] by (simp add: owned_ok_def frame_simps)
  moreover have "routes_ok (p\<lparr>ps_world := ?w'\<rparr>)"
    using process_invD(5) [OF inv] by (simp add: routes_ok_def r)
  moreover have "exclusive_ok (ps_handles p) (ps_subs p) ?w' e" if e: "e \<in> set (ps_exclusive p)" for e
  proof -
    have "eb_slot e \<noteq> gb_slot b"
      using eb_gb_disjoint [OF process_invD(3) [OF inv] e b, of "eb_slot e"] by (auto simp: gb_ids_def)
    then show ?thesis
      using process_invD(6) [OF inv e] mark_removed_channel mark_removed_receiver
      by (auto simp: exclusive_ok_def r frame_simps split: option.splits)
  qed
  ultimately show ?thesis
    using mark_removed_group process_invD(7) [OF inv] by (simp add: process_inv_def)
qed

lemma shutdown_inv:
  assumes inv: "process_inv p" and b: "b \<in> set (ps_groups p)"
  shows "process_inv (p\<lparr>ps_world := group_shutdown E (gb_group b) (ps_world p)\<rparr>)"
proof -
  let ?g = "gb_group b"
  let ?w1 = "take_handle ?g (ps_world p)"
  have 1: "process_inv (p\<lparr>ps_world := ?w1\<rparr>)" by (rule quiet_step_inv [OF inv quiet_take_handle])
  have "grp_slot (groups ?w1 ?g) = gb_slot b"
    using process_invD(7) [OF inv b] by (simp add: group_ok_def frame_simps)
  then have 2: "process_inv (p\<lparr>ps_world := mark_removed E (grp_slot (groups ?w1 ?g)) ?w1\<rparr>)"
    using close_slot_inv [OF 1] b by simp
  show ?thesis
    using quiet_step_inv [OF 2 quiet_version [where g = ?g]] by (simp add: group_shutdown_def Let_def)
qed

text \<open>A group unregisters its own address, or nothing.\<close>

lemma group_task_ok_frame [simp]:
  "group_task_ok (w\<lparr>inner := i\<rparr>) b \<longleftrightarrow> group_task_ok w b"
  "grp_req_count (gs (gb_group b)) = grp_req_count (groups w (gb_group b)) \<Longrightarrow>
   group_task_ok (w\<lparr>groups := gs\<rparr>) b \<longleftrightarrow> group_task_ok w b"
  by (simp_all add: group_task_ok_def)

lemma group_ok_counts:
  "lb_handles (gb_group b) hs' = lb_handles (gb_group b) hs \<Longrightarrow>
   group_ok hs' subs dropped w b \<longleftrightarrow> group_ok hs subs dropped w b"
  by (simp add: group_ok_def)

lemma group_ok_inner [simp]:
  "group_ok hs subs dropped (w\<lparr>inner := i\<rparr>) b \<longleftrightarrow> group_ok hs subs dropped w b"
  by (simp add: group_ok_def)

lemma delete_group_route_inv:
  assumes inv: "process_inv p" and r: "routes E (ps_world p) a = Some (LoadBalanced g)"
    and reg: "registry_reachable E (ps_world p\<lparr>inner := delete_route (d_radix E) a (inner (ps_world p))\<rparr>)"
  shows "process_inv (p\<lparr>ps_world := ps_world p\<lparr>inner := delete_route (d_radix E) a (inner (ps_world p))\<rparr>\<rparr>)"
    (is "process_inv (p\<lparr>ps_world := ?w'\<rparr>)")
proof -
  have rt: "routes E ?w' = (routes E (ps_world p))(a := None)"
    using tree.find_route_delete [OF process_invD(2) [OF inv]] by (simp add: routes_def fun_eq_iff)
  have "exclusive_ok (ps_handles p) (ps_subs p) ?w' e" if "e \<in> set (ps_exclusive p)" for e
    using process_invD(6) [OF inv that] r
    by (auto simp: exclusive_ok_def rt split: option.splits)
  moreover have "group_ok (ps_handles p) (ps_subs p) (ps_dropped p) ?w' b" if "b \<in> set (ps_groups p)" for b
    using process_invD(7) [OF inv that] by simp
  moreover have "ids_ok (p\<lparr>ps_world := ?w'\<rparr>)" "owned_ok (p\<lparr>ps_world := ?w'\<rparr>)"
    using process_invD(3,4) [OF inv] by (simp_all add: ids_ok_def owned_ok_def)
  moreover have "routes_ok (p\<lparr>ps_world := ?w'\<rparr>)"
    using process_invD(5) [OF inv] by (simp add: routes_ok_def rt)
  ultimately show ?thesis using reg by (simp add: process_inv_def)
qed

lemma unregister_group_inv:
  assumes inv: "process_inv p" and b: "b \<in> set (ps_groups p)"
  shows "process_inv (p\<lparr>ps_world := snd (unregister E (gb_address b) (gb_slot b) (ps_world p))\<rparr>)"
proof (cases "routes E (ps_world p) (gb_address b)")
  case None
  then show ?thesis using inv by (simp add: unregister_def routes_def)
next
  case (Some t)
  let ?w = "ps_world p"
  have f: "find_route (d_radix E) (gb_address b) (inner ?w) = Some t" using Some by (simp add: routes_def)
  show ?thesis
  proof (cases "target_slot ?w t = gb_slot b")
    case False
    then show ?thesis using inv f by (simp add: unregister_def remove_slot_miss)
  next
    case True
    note ids = process_invD(3) [OF inv]
    have "t = LoadBalanced (gb_group b)"
    proof (cases t)
      case (Single s)
      then obtain e where "e \<in> set (ps_exclusive p)" "eb_slot e = gb_slot b"
        using route_exclusive [OF inv, of "gb_address b" s] Some True by (auto simp: target_slot_def)
      then show ?thesis using eb_gb_disjoint [OF ids _ b, of e "gb_slot b"] eb_ids_simps(2) [of e] by simp
    next
      case (LoadBalanced g)
      then obtain b' where b': "b' \<in> set (ps_groups p)" "gb_group b' = g"
        using route_group [OF inv] Some by metis
      then have "gb_slot b' = gb_slot b"
        using process_invD(7) [OF inv b'(1)] True LoadBalanced by (simp add: group_ok_def target_slot_def)
      then have "b' = b" using gb_unique [OF ids b'(1) b, of "gb_slot b"] gb_ids_simps(2) [of b'] by simp
      then show ?thesis using LoadBalanced b'(2) by simp
    qed
    let ?w1 = "group_shutdown E (gb_group b) ?w"
    have g: "grp_slot (groups ?w (gb_group b)) = gb_slot b" using process_invD(7) [OF inv b] by (simp add: group_ok_def)
    have u: "snd (unregister E (gb_address b) (gb_slot b) ?w) =
        ?w1\<lparr>inner := delete_route (d_radix E) (gb_address b) (inner ?w1)\<rparr>"
      using f g \<open>t = LoadBalanced (gb_group b)\<close> by (simp add: unregister_def remove_slot_def frame_simps)
    have inv1: "process_inv (p\<lparr>ps_world := ?w1\<rparr>)" by (rule shutdown_inv [OF inv b])
    have r1: "routes E ?w1 (gb_address b) = Some (LoadBalanced (gb_group b))"
      using Some \<open>t = LoadBalanced (gb_group b)\<close> routes_inner [of ?w1 ?w] by (simp add: frame_simps)
    have "registry_reachable E (snd (unregister E (gb_address b) (gb_slot b) ?w))"
      using reach_step [OF process_invD(1) [OF inv] step_unregister [OF surjective_pairing]] by blast
    then show ?thesis
      using delete_group_route_inv [OF inv1, of "gb_address b" "gb_group b"] r1 by (simp add: u)
  qed
qed

lemma unregister_task:
  "tasks (snd (unregister E a s w)) t = tasks w t \<or>
   tasks (snd (unregister E a s w)) t = map_option (\<lambda>k. k\<lparr>task_abort := True\<rparr>) (tasks w t)"
proof -
  have h: "tasks (take_handle g w) t = tasks w t \<or>
      tasks (take_handle g w) t = map_option (\<lambda>k. k\<lparr>task_abort := True\<rparr>) (tasks w t)" for g
    by (auto simp: take_handle_def task_request_abort_def split: option.split)
  have "tasks (group_shutdown E g w) = tasks (take_handle g w)" for g
    by (simp add: group_shutdown_def Let_def frame_simps)
  with h have "tasks (snd (remove_slot E u s w)) t = tasks w t \<or>
      tasks (snd (remove_slot E u s w)) t = map_option (\<lambda>k. k\<lparr>task_abort := True\<rparr>) (tasks w t)" for u
    by (simp add: remove_slot_def frame_simps split: route_target.split)
  then show ?thesis by (simp add: unregister_def split_beta Let_def split: option.split)
qed

lemma dispatcher_finish_inv:
  assumes inv: "process_inv p" and k: "tasks (ps_world p) t = Some k" "task_active k"
  shows "process_inv (p\<lparr>ps_world := dispatcher_finish E True t k (ps_world p)\<rparr>)"
proof -
  obtain b where b: "b \<in> set (ps_groups p)" "task_slot k = gb_slot b" "task_address k = gb_address b" "gb_task b = t"
    using task_binding [OF inv k(1)] by metis
  let ?w1 = "mark_removed E (gb_slot b) (ps_world p)"
  let ?w2 = "snd (unregister E (gb_address b) (gb_slot b) ?w1)"
  have inv2: "process_inv (p\<lparr>ps_world := ?w2\<rparr>)"
    using unregister_group_inv [OF close_slot_inv [OF inv b(1)]] b(1) by simp
  obtain k2 where k2: "tasks ?w2 t = Some k2" "task_pc k2 = task_pc k" "task_main k2 = task_main k" "task_req k2 = task_req k"
    using unregister_task [of "gb_address b" "gb_slot b" ?w1 t] k(1) by (auto simp: frame_simps)
  have "drop_receivers E k2 ?w2 = drop_receivers E k ?w2" using k2 by (simp add: drop_receivers_def)
  moreover have "task_active k2" using k(2) k2(2) by (simp add: task_active_def)
  ultimately show ?thesis
    using task_end_inv [OF inv2, of t k2 Finished] k2(1) b(2,3) by (simp add: dispatcher_finish_def Let_def)
qed

lemma dispatcher_step_inv:
  assumes inv: "process_inv p" and st: "dispatcher_step E True t (ps_world p) = Some (l, w')"
  shows "process_inv (p\<lparr>ps_world := w'\<rparr>)"
proof -
  let ?w = "ps_world p"
  obtain k where k: "tasks ?w t = Some k" using st by (auto simp: dispatcher_step_def split: option.splits)
  have act: "task_active k"
    using st k by (cases "task_pc k") (simp_all add: dispatcher_step_def task_active_def)
  obtain d where rq: "reqs ?w (task_req k) = Some d" "rrx d" and rc: "receiver_ok rx (task_main k) ?w"
    using task_binding [OF inv k] act by metis
  have seq: "quiet {} ?w v \<Longrightarrow> tasks v = tasks ?w \<Longrightarrow> process_inv (p\<lparr>ps_world := set_pc t pc v\<rparr>)" for v pc
    using quiet_step_inv [OF inv quiet_seq [OF _ quiet_set_pc]] k act by simp
  show ?thesis
  proof (cases "task_pc k")
    case WaitRequest
    with st k seq quiet_task_recv_request [OF rq] task_recv_request_frame(2) dispatcher_finish_inv [OF inv k act]
    show ?thesis by (auto simp: dispatcher_step_def split: poll.splits option.splits)
  next
    case (WaitMessage tok)
    have "process_inv (p\<lparr>ps_world := dispatcher_finish E True t k (oneshot_drop_tx E tok ?w)\<rparr>)"
      using dispatcher_finish_inv [OF quiet_step_inv [OF inv quiet_drop_cell(2) [of _ tok]], of t k] k act
      by (simp add: frame_simps)
    moreover have "tasks v = tasks ?w" if "task_recv_message E k ?w = Ready (Some (m, v))" for m v
      using that by (auto simp: task_recv_message_def split: option.splits poll.splits)
    ultimately show ?thesis
      using st k seq quiet_task_recv_message [OF rc] WaitMessage
      by (auto simp: dispatcher_step_def split: poll.splits option.splits)
  next
    case (Deliver tok m)
    with st k seq quiet_reply_send reply_send_frame quiet_refl show ?thesis
      by (auto simp: dispatcher_step_def split: sum.splits)
  next
    case (WaitNext m)
    with st k seq quiet_task_recv_request [OF rq] task_recv_request_frame(2) quiet_refl
    show ?thesis by (auto simp: dispatcher_step_def split: poll.splits option.splits)
  qed (use act in \<open>simp_all add: task_active_def\<close>)
qed

end

end
