(* ===== verification/Process_Drops.thy ===== *)
theory Process_Drops
  imports Process_Tasks
begin

text \<open>
  Dropping values keeps the invariant of a process: handles of exclusive and of load-balanced
  subscriptions, push and pull subscribers, and groups nobody refers to any more.
\<close>

context env
begin

section \<open>Dropping handles and subscribers\<close>

lemma exclusive_drop_inv:
  assumes inv: "process_inv p" and h: "HandleExclusive a s \<in> set (ps_handles p)"
  defines "hs \<equiv> remove1 (HandleExclusive a s) (ps_handles p)"
  shows "process_inv (p\<lparr>ps_handles := hs, ps_world := snd (unregister E a s (ps_world p))\<rparr>)"
proof -
  let ?w = "ps_world p" and ?h = "HandleExclusive a s"
  let ?w' = "(mark_removed E s ?w)\<lparr>inner := delete_route (d_radix E) a (inner ?w)\<rparr>"
  obtain e where e: "e \<in> set (ps_exclusive p)" "eb_address e = a" "eb_slot e = s" "eb_handle e = ?h"
    using handle_binding [OF inv h] by metis
  have ra: "routes E ?w a = Some (Single s)"
    using process_invD(6) [OF inv e(1)] h e by (simp add: exclusive_ok_def)
  then have u: "snd (unregister E a s ?w) = ?w'"
    by (simp add: routes_def unregister_def remove_slot_def)
  have rt: "routes E ?w' = (routes E ?w)(a := None)"
    using tree.find_route_delete [OF process_invD(2) [OF inv]] by (simp add: routes_def fun_eq_iff)
  have d: "distinct (filter exclusive_handle (ps_handles p))" using process_invD(4) [OF inv] by (simp add: owned_ok_def)
  have m: "h' \<in> set hs \<longleftrightarrow> h' \<in> set (ps_handles p) \<and> h' \<noteq> ?h" if "exclusive_handle h'" for h'
    using exclusive_remove1 [OF that d, of ?h] by (simp add: hs_def)
  have sub: "set hs \<subseteq> set (ps_handles p)" by (simp add: hs_def set_remove1_subset)
  have ex: "exclusive_ok hs (ps_subs p) ?w' e'" if e': "e' \<in> set (ps_exclusive p)" for e'
  proof -
    have "eb_slot e' = s \<longleftrightarrow> e' = e" using eb_slot_inj [OF process_invD(3) [OF inv] e' e(1)] e(3) by auto
    moreover from this have "eb_handle e' = ?h \<longleftrightarrow> e' = e" using e(2,3) by (auto simp: eb_handle_def)
    moreover have "e' \<noteq> e \<Longrightarrow> eb_handle e' \<in> set (ps_handles p) \<Longrightarrow> eb_address e' \<noteq> a"
      using process_invD(6) [OF inv e'] ra calculation(1) by (auto simp: exclusive_ok_def)
    moreover have "exclusive_handle (eb_handle e')" by (simp add: eb_handle_def)
    ultimately show ?thesis
      using process_invD(6) [OF inv e'] mark_removed_channel mark_removed_receiver m [of "eb_handle e'"]
      by (auto simp: exclusive_ok_def rt frame_simps split: option.splits)
  qed
  have gr: "group_ok hs (ps_subs p) (ps_dropped p) ?w' b" if b: "b \<in> set (ps_groups p)" for b
  proof -
    have "lb_handles (gb_group b) hs = lb_handles (gb_group b) (ps_handles p)"
      using lb_handles_remove1 [OF h, of "gb_group b"] by (simp add: hs_def)
    from group_ok_counts [OF this, THEN iffD2, OF mark_removed_group [OF process_invD(7) [OF inv b], of s]]
    show ?thesis by simp
  qed
  have ids: "ids_ok (p\<lparr>ps_handles := hs, ps_world := ?w'\<rparr>)"
    using process_invD(3) [OF inv] by (auto simp: ids_ok_def binding_ids_def frame_simps)
  have own: "owned_ok (p\<lparr>ps_handles := hs, ps_world := ?w'\<rparr>)"
  proof -
    have "distinct (filter exclusive_handle hs)" using d by (simp add: hs_def filter_remove1)
    then show ?thesis using process_invD(4) [OF inv] sub by (simp add: owned_ok_def frame_simps) blast
  qed
  have ro: "routes_ok (p\<lparr>ps_handles := hs, ps_world := ?w'\<rparr>)"
    using process_invD(5) [OF inv] m by (simp add: routes_ok_def rt)
  have "registry_reachable E (snd (unregister E a s ?w))"
    using reach_step [OF process_invD(1) [OF inv] step_unregister [OF surjective_pairing]] by blast
  with ex gr ids own ro show ?thesis by (simp add: process_inv_def u)
qed

lemma consumer_drop_inv:
  assumes inv: "process_inv p" and h: "HandleLoadBalanced a g \<in> set (ps_handles p)"
  defines "hs \<equiv> remove1 (HandleLoadBalanced a g) (ps_handles p)"
  shows "process_inv (p\<lparr>ps_handles := hs, ps_world := remove_consumer E g (ps_world p)\<rparr>)"
proof -
  let ?w = "ps_world p"
  let ?w' = "?w\<lparr>groups := (groups ?w)(g := (groups ?w g)\<lparr>grp_consumers := grp_consumers (groups ?w g) - 1\<rparr>)\<rparr>"
  obtain b where b: "b \<in> set (ps_groups p)" "gb_group b = g"
    using process_invD(4) [OF inv] h unfolding owned_ok_def by blast
  have sub: "set hs \<subseteq> set (ps_handles p)" by (simp add: hs_def set_remove1_subset)
  have exh: "h' \<in> set hs \<longleftrightarrow> h' \<in> set (ps_handles p)" if "exclusive_handle h'" for h'
    using that by (cases h') (simp_all add: hs_def)
  have fe: "filter exclusive_handle hs = filter exclusive_handle (ps_handles p)"
    by (simp add: hs_def filter_remove1 remove1_idem)
  have r: "routes E ?w' = routes E ?w" by (rule routes_inner) simp
  have "group_ok hs (ps_subs p) (ps_dropped p) ?w' b'" if b': "b' \<in> set (ps_groups p)" for b'
  proof (cases "gb_group b' = g")
    case True
    then have "lb_handles g (ps_handles p) = Suc (lb_handles g hs)"
      using lb_handles_remove1 [OF h, of g] by (simp add: hs_def)
    then show ?thesis using process_invD(7) [OF inv b'] True by (simp add: group_ok_def)
  next
    case False
    then have "lb_handles (gb_group b') hs = lb_handles (gb_group b') (ps_handles p)"
      using lb_handles_remove1 [OF h, of "gb_group b'"] by (auto simp: hs_def)
    from group_ok_counts [OF this, THEN iffD2, OF process_invD(7) [OF inv b']] show ?thesis
      using False by (simp add: group_ok_def)
  qed
  moreover have "exclusive_ok hs (ps_subs p) ?w' e" if "e \<in> set (ps_exclusive p)" for e
    using process_invD(6) [OF inv that] exh [of "eb_handle e"]
    by (simp add: exclusive_ok_def r eb_handle_def split: option.splits)
  moreover have "ids_ok (p\<lparr>ps_handles := hs, ps_world := ?w'\<rparr>)"
    using process_invD(3) [OF inv] by (simp add: ids_ok_def binding_ids_def)
  moreover have "owned_ok (p\<lparr>ps_handles := hs, ps_world := ?w'\<rparr>)"
    using process_invD(4) [OF inv] sub by (simp add: owned_ok_def fe) blast
  moreover have "routes_ok (p\<lparr>ps_handles := hs, ps_world := ?w'\<rparr>)"
    using process_invD(5) [OF inv] exh by (simp add: routes_ok_def r)
  moreover have "registry_reachable E ?w'" using reach_step [OF process_invD(1) [OF inv] step_other] by simp
  ultimately have inv': "process_inv (p\<lparr>ps_handles := hs, ps_world := ?w'\<rparr>)" by (simp add: process_inv_def)
  from shutdown_inv [OF inv', of b] b
  have sh: "process_inv (p\<lparr>ps_handles := hs, ps_world := group_shutdown E g ?w'\<rparr>)" by simp
  have rc: "remove_consumer E g ?w = (if grp_consumers (groups ?w g) = 1 then group_shutdown E g ?w' else ?w')"
    unfolding remove_consumer_def Let_def by (rule refl)
  show ?thesis
  proof (cases "grp_consumers (groups ?w g) = 1")
    case True
    show ?thesis unfolding rc if_P [OF True] by (rule sh)
  next
    case False
    show ?thesis unfolding rc if_not_P [OF False] by (rule inv')
  qed
qed

text \<open>Releasing a reference to the request sender of a group.\<close>

lemma release_frame [frame_simps]:
  "inner (req_sender_release E g w) = inner w" "slots (req_sender_release E g w) = slots w"
  "chans (req_sender_release E g w) = chans w" "tasks (req_sender_release E g w) = tasks w"
  "dispatchers (req_sender_release E g w) = dispatchers w" "next_id (req_sender_release E g w) = next_id w"
  "grp_slot (groups (req_sender_release E g w) h) = grp_slot (groups w h)"
  "grp_req (groups (req_sender_release E g w) h) = grp_req (groups w h)"
  "grp_consumers (groups (req_sender_release E g w) h) = grp_consumers (groups w h)"
  "grp_req_count (groups (req_sender_release E g w) h) =
     (if h = g then grp_req_count (groups w g) - 1 else grp_req_count (groups w h))"
  by (simp_all add: req_sender_release_def Let_def)

lemma release_channel:
  "slot_channel_ok txs s ch (req_sender_release E g w) \<longleftrightarrow> slot_channel_ok txs s ch w"
  "receiver_ok rx ch (req_sender_release E g w) \<longleftrightarrow> receiver_ok rx ch w"
  by (simp_all add: slot_channel_ok_def receiver_ok_def frame_simps)

lemma release_reqs:
  "reqs (req_sender_release E g w) =
     (if grp_req_count (groups w g) - 1 = 0
      then (reqs w)(grp_req (groups w g) := map_option (mp_drop_tx (d_reqs E)) (reqs w (grp_req (groups w g))))
      else reqs w)"
  by (simp add: req_sender_release_def Let_def)

lemma release_task_ok:
  assumes "group_task_ok w b" and "grp_req (groups w (gb_group b)) = gb_req b" and "0 < grp_req_count (groups w (gb_group b))"
  shows "group_task_ok (req_sender_release E (gb_group b) w) b"
proof -
  let ?n = "grp_req_count (groups w (gb_group b))" and ?w' = "req_sender_release E (gb_group b) w"
  obtain d k where d: "reqs w (gb_req b) = Some d" "rtxs d = 1" and k: "tasks w (gb_task b) = Some k"
      "task_main k = gb_chan b" "task_req k = gb_req b" "task_slot k = gb_slot b" "task_address k = gb_address b"
      "task_active k \<longrightarrow> receiver_ok rx (gb_chan b) w \<and> rrx d"
    using assms(1,3) unfolding group_task_ok_def by auto
  have "\<exists>d'. reqs ?w' (gb_req b) = Some d' \<and> rtxs d' = of_bool (?n - 1 \<noteq> 0) \<and> (rrx d \<longrightarrow> rrx d')"
    using d assms(2) requests.mp_drop_tx_eq(3,4) by (simp add: release_reqs)
  with k show ?thesis by (auto simp: group_task_ok_def receiver_ok_def frame_simps)
qed

lemma release_other:
  assumes "group_task_ok w b" and "gb_group b \<noteq> g" and "grp_req (groups w g) \<noteq> gb_req b"
  shows "group_task_ok (req_sender_release E g w) b"
  using assms by (simp add: group_task_ok_def receiver_ok_def frame_simps release_reqs)

lemma release_group_ok:
  assumes inv: "process_inv p" and b: "b \<in> set (ps_groups p)" and b': "b' \<in> set (ps_groups p)"
    and n: "Suc (of_bool (gb_group b \<notin> set dropped) + pull_subs (gb_group b) subs) = grp_req_count (groups (ps_world p) (gb_group b))"
    and o: "gb_group b' \<noteq> gb_group b \<Longrightarrow> (gb_group b' \<in> set dropped \<longleftrightarrow> gb_group b' \<in> set (ps_dropped p)) \<and>
      pull_subs (gb_group b') subs = pull_subs (gb_group b') (ps_subs p)"
  shows "group_ok (ps_handles p) subs dropped (req_sender_release E (gb_group b) (ps_world p)) b'"
proof -
  let ?w = "ps_world p"
  have g: "group_ok (ps_handles p) (ps_subs p) (ps_dropped p) ?w x" if "x \<in> set (ps_groups p)" for x
    using process_invD(7) [OF inv that] .
  have sc: "slot_channel_ok txs (gb_slot b') (gb_chan b') (req_sender_release E (gb_group b) ?w)"
    using g [OF b'] by (simp add: group_ok_def release_channel)
  show ?thesis
  proof (cases "gb_group b' = gb_group b")
    case True
    then have "b' = b" using gb_unique [OF process_invD(3) [OF inv] b' b, of "gb_group b"] gb_ids_simps(4) [of b'] by simp
    have "0 < grp_req_count (groups ?w (gb_group b))" using n by linarith
    then have "group_task_ok (req_sender_release E (gb_group b) ?w) b"
      using g [OF b] release_task_ok by (simp add: group_ok_def)
    moreover have "grp_req_count (groups ?w (gb_group b)) - 1 =
        of_bool (gb_group b \<notin> set dropped) + pull_subs (gb_group b) subs"
      using n by linarith
    ultimately show ?thesis
      using g [OF b] sc \<open>b' = b\<close> unfolding group_ok_def by (simp only: frame_simps if_True simp_thms)
  next
    case False
    then have "gb_req b \<noteq> gb_req b'"
      using gb_unique [OF process_invD(3) [OF inv] b' b, of "gb_req b"] gb_ids_simps(3) [of b'] by auto
    then show ?thesis
      using g [OF b'] g [OF b] sc False o release_other [of ?w b' "gb_group b"] by (simp add: group_ok_def frame_simps)
  qed
qed

text \<open>The invariant after a release, given what the owners are then.\<close>

lemma release_inv:
  assumes inv: "process_inv p" and b: "b \<in> set (ps_groups p)"
    and n: "Suc (of_bool (gb_group b \<notin> set dropped) + pull_subs (gb_group b) subs) = grp_req_count (groups (ps_world p) (gb_group b))"
    and o: "\<And>g. g \<noteq> gb_group b \<Longrightarrow> (g \<in> set dropped \<longleftrightarrow> g \<in> set (ps_dropped p)) \<and>
      pull_subs g subs = pull_subs g (ps_subs p)"
    and push: "push_chans subs = push_chans (ps_subs p)" and ss: "set subs \<subseteq> set (ps_subs p)"
    and own: "owned_ok (p\<lparr>ps_dropped := dropped\<rparr>)" and ro: "routes_ok (p\<lparr>ps_dropped := dropped\<rparr>)"
  shows "process_inv (p\<lparr>ps_world := req_sender_release E (gb_group b) (ps_world p), ps_subs := subs, ps_dropped := dropped\<rparr>)"
proof -
  let ?w' = "req_sender_release E (gb_group b) (ps_world p)"
  let ?p' = "p\<lparr>ps_world := ?w', ps_subs := subs, ps_dropped := dropped\<rparr>"
  have r: "routes E ?w' = routes E (ps_world p)" by (rule routes_inner) (simp add: frame_simps)
  have "exclusive_ok (ps_handles p) subs ?w' e" if "e \<in> set (ps_exclusive p)" for e
    using process_invD(6) [OF inv that]
    by (simp add: exclusive_ok_def release_channel r push frame_simps split: option.splits)
  moreover have "registry_reachable E ?w'"
    using reach_step [OF process_invD(1) [OF inv] step_other] by (simp add: frame_simps)
  moreover have "ids_ok ?p'"
    using process_invD(3) [OF inv] by (simp add: ids_ok_def binding_ids_def frame_simps)
  moreover have "owned_ok ?p'"
    using own ss push by (simp add: owned_ok_def frame_simps) blast
  moreover have "routes_ok ?p'" using ro by (simp add: routes_ok_def r)
  ultimately show ?thesis
    using release_group_ok [OF inv b _ n] o by (simp add: process_inv_def)
qed

lemma subscriber_drop_inv:
  assumes inv: "process_inv p" and sub: "sub \<in> set (ps_subs p)"
  shows "process_inv (p_subscriber_drop E sub p)"
proof (cases "sub_mode sub")
  case (Push ch)
  let ?p1 = "p\<lparr>ps_subs := remove1 sub (ps_subs p)\<rparr>"
  have d: "distinct (push_chans (ps_subs p))" using process_invD(4) [OF inv] by (simp add: owned_ok_def)
  have pc: "distinct (push_chans (remove1 sub (ps_subs p)))"
      "set (push_chans (remove1 sub (ps_subs p))) = set (push_chans (ps_subs p)) - {ch}"
    using push_chans_remove1 [OF sub d] Push by simp_all
  have ps: "pull_subs g (remove1 sub (ps_subs p)) = pull_subs g (ps_subs p)" for g
    using pull_subs_remove1 [OF sub, of g] Push by simp
  have "owned_ok ?p1"
    using process_invD(4) [OF inv] pc by (simp add: owned_ok_def) (meson notin_set_remove1)
  moreover have "exclusive_ok (ps_handles p) (remove1 sub (ps_subs p)) (ps_world p) e" if "e \<in> set (ps_exclusive p)" for e
    using process_invD(6) [OF inv that] pc(2) by (simp add: exclusive_ok_def split: option.splits)
  moreover have "group_ok (ps_handles p) (remove1 sub (ps_subs p)) (ps_dropped p) (ps_world p) b" if "b \<in> set (ps_groups p)" for b
    using process_invD(7) [OF inv that] ps [of "gb_group b"] by (simp only: group_ok_def)
  ultimately have inv1: "process_inv ?p1"
    using process_invD(1,3,5) [OF inv] by (simp add: process_inv_def ids_ok_def routes_ok_def)
  have "process_inv (?p1\<lparr>ps_world := chan_drop_rx E ch (ps_world ?p1)\<rparr>)"
  proof (rule quiet_inv [OF inv1])
    show "quiet {ch} (ps_world ?p1) (chan_drop_rx E ch (ps_world ?p1))" by (rule quiet_drop_rx)
  next
    obtain e0 where e0: "e0 \<in> set (ps_exclusive p)" "eb_chan e0 = ch" "eb_listener e0 = None"
      using process_invD(4) [OF inv] sub Push set_push_chans [of ch "ps_subs p"] by (auto simp: owned_ok_def)
    fix e assume e: "e \<in> set (ps_exclusive ?p1)" "eb_chan e \<in> {ch}"
    then have "e = e0" using eb_chan_inj [OF process_invD(3) [OF inv], of e e0] e0 by simp
    then show "case eb_listener e of None \<Rightarrow> eb_chan e \<notin> set (push_chans (ps_subs ?p1))
        | Some r \<Rightarrow> rd_pc (dispatchers (chan_drop_rx E ch (ps_world ?p1)) r) = ListenerEnded"
      using e0 pc(2) by simp
  next
    obtain e0 where e0: "e0 \<in> set (ps_exclusive p)" "eb_chan e0 = ch"
      using process_invD(4) [OF inv] sub Push set_push_chans [of ch "ps_subs p"] by (auto simp: owned_ok_def)
    fix b k assume "b \<in> set (ps_groups ?p1)" "gb_chan b \<in> {ch}"
    then show "\<not> task_active k"
      using eb_gb_disjoint [OF process_invD(3) [OF inv] e0(1), of b ch] e0(2) eb_ids_simps(1) [of e0] gb_ids_simps(1) [of b]
      by auto
  qed
  then show ?thesis using Push by (cases p) (simp add: p_subscriber_drop_def subscriber_drop_def)
next
  case (Pull r g)
  obtain b where b: "b \<in> set (ps_groups p)" "gb_group b = g"
    using process_invD(4) [OF inv] sub Pull unfolding owned_ok_def by blast
  have ps: "pull_subs h (ps_subs p) = of_bool (h = g) + pull_subs h (remove1 sub (ps_subs p))" for h
    using pull_subs_remove1 [OF sub, of h] Pull by auto
  have d: "distinct (push_chans (ps_subs p))" using process_invD(4) [OF inv] by (simp add: owned_ok_def)
  have pu: "push_chans (remove1 sub xs) = push_chans xs" for xs
    using Pull by (induction xs) auto
  have "process_inv (p\<lparr>ps_world := req_sender_release E (gb_group b) (ps_world p),
      ps_subs := remove1 sub (ps_subs p), ps_dropped := ps_dropped p\<rparr>)"
    by (rule release_inv [OF inv b(1)])
      (use process_invD(4,5,7) [OF inv] b ps pu in \<open>auto simp: group_ok_def set_remove1_subset\<close>)
  then show ?thesis using Pull b(2) by (simp add: p_subscriber_drop_def subscriber_drop_def)
qed

lemma group_drop_inv:
  assumes inv: "process_inv p" and b: "b \<in> set (ps_groups p)" and u: "group_unreferenced E (gb_group b) p"
  shows "process_inv (p_group_drop E (gb_group b) p)"
proof -
  let ?g = "gb_group b"
  let ?w1 = "group_shutdown E ?g (ps_world p)"
  let ?p1 = "p\<lparr>ps_world := ?w1\<rparr>"
  have inv1: "process_inv ?p1" by (rule shutdown_inv [OF inv b])
  have nd: "?g \<notin> set (ps_dropped p)" "?g \<notin> snd ` set (ps_joining p)"
    and nh: "\<And>a. HandleLoadBalanced a ?g \<notin> set (ps_handles p)"
    using u by (auto simp: group_unreferenced_def)
  have nr: "routes E (ps_world p) a \<noteq> Some (LoadBalanced ?g)" for a
  proof
    assume r: "routes E (ps_world p) a = Some (LoadBalanced ?g)"
    then obtain b' where "b' \<in> set (ps_groups p)" "gb_group b' = ?g" "gb_address b' = a"
      using route_group [OF inv] by metis
    then show False using u r by (auto simp: group_unreferenced_def routes_def)
  qed
  have r1: "routes E ?w1 = routes E (ps_world p)" by (rule routes_inner) (simp add: frame_simps)
  have j: "(a, ?g) \<notin> set (ps_joining p)" for a using nd(2) by force
  have own: "owned_ok (?p1\<lparr>ps_dropped := ?g # ps_dropped p\<rparr>)"
    using process_invD(4) [OF inv1] nh j b by (simp add: owned_ok_def) blast
  have ro: "routes_ok (?p1\<lparr>ps_dropped := ?g # ps_dropped p\<rparr>)"
    using process_invD(5) [OF inv] nr by (auto simp: routes_ok_def r1)
  have "grp_req_count (groups ?w1 ?g) = 1 + pull_subs ?g (ps_subs p)"
    using process_invD(7) [OF inv1] b nd(1) by (auto simp: group_ok_def)
  then have "process_inv (?p1\<lparr>ps_world := req_sender_release E ?g (ps_world ?p1), ps_subs := ps_subs ?p1,
      ps_dropped := ?g # ps_dropped p\<rparr>)"
    using b own ro by (intro release_inv [OF inv1]) auto
  then show ?thesis by (simp add: p_group_drop_def group_drop_def)
qed

end

end
