(* ===== verification/Process_Create.thy ===== *)
theory Process_Create
  imports Process_Drops
begin

text \<open>
  Creating bindings keeps the invariant of a process: joining a group, exclusive subscriptions,
  clients and new load-balanced addresses. With theories \<open>Process_Tasks\<close> and \<open>Process_Drops\<close>
  this covers every step, so the invariant holds in every reachable process that is not poisoned.
\<close>

context env
begin

section \<open>Steps that create bindings\<close>

text \<open>A subscription joins a group that is kept alive by its reference.\<close>

lemma lb_join_inv:
  assumes inv: "process_inv p" and j: "(a, g) \<in> set (ps_joining p)" and st: "p_lb_join a g p = (q, p')"
  shows "process_inv p'"
proof -
  let ?w = "ps_world p"
  let ?w' = "snd (group_subscribe g ?w)"
  let ?sub = "\<lparr>sub_mode = Pull (grp_req (groups ?w g)) g, sub_address = a\<rparr>" and ?h = "HandleLoadBalanced a g"
  have p': "p' = p\<lparr>ps_world := ?w', ps_joining := remove1 (a, g) (ps_joining p), ps_handles := ?h # ps_handles p,
      ps_subs := ?sub # ps_subs p\<rparr>"
    using st by (auto simp: p_lb_join_def group_subscribe_def Let_def)
  obtain b where b: "b \<in> set (ps_groups p)" "gb_group b = g" "gb_address b = a" "g \<notin> set (ps_dropped p)"
    using process_invD(4) [OF inv] j unfolding owned_ok_def by blast
  have gr: "grp_req (groups ?w g) = gb_req b" using process_invD(7) [OF inv b(1)] b(2) by (simp add: group_ok_def)
  have r: "routes E ?w' = routes E ?w" by (rule routes_inner) (simp add: group_subscribe_def)
  have "group_ok (?h # ps_handles p) (?sub # ps_subs p) (ps_dropped p) ?w' b'" if b': "b' \<in> set (ps_groups p)" for b'
  proof (cases "gb_group b' = g")
    case True
    have "0 < grp_req_count (groups ?w g)"
      using process_invD(7) [OF inv b'] True b(4) by (simp add: group_ok_def)
    then have "group_task_ok ?w' b'"
      using process_invD(7) [OF inv b'] True by (simp add: group_ok_def group_task_ok_def group_subscribe_def)
    then show ?thesis
      using process_invD(7) [OF inv b'] True by (simp add: group_ok_def group_subscribe_def)
  next
    case False
    then show ?thesis
      using process_invD(7) [OF inv b'] by (simp add: group_ok_def group_subscribe_def)
  qed
  moreover have "exclusive_ok (?h # ps_handles p) (?sub # ps_subs p) ?w' e" if "e \<in> set (ps_exclusive p)" for e
    using process_invD(6) [OF inv that] r
    by (simp add: exclusive_ok_def eb_handle_def group_subscribe_def split: option.splits)
  moreover have "ids_ok p'"
    using process_invD(3) [OF inv] by (simp add: ids_ok_def binding_ids_def p' group_subscribe_def)
  moreover have "owned_ok p'"
  proof -
    have "x \<in> set (remove1 (a, g) (ps_joining p)) \<Longrightarrow> x \<in> set (ps_joining p)" for x
      by (meson notin_set_remove1)
    then show ?thesis
      using process_invD(4) [OF inv] b gr by (simp add: owned_ok_def p' group_subscribe_def) blast
  qed
  moreover have "routes_ok p'"
    using process_invD(5) [OF inv] by (simp add: routes_ok_def p' r)
  moreover have "registry_reachable E ?w'"
    using reach_step [OF process_invD(1) [OF inv] step_other] by (simp add: group_subscribe_def)
  ultimately show ?thesis by (simp add: process_inv_def p')
qed

text \<open>New bindings: everything else only sees an extension of the state.\<close>

lemma extends_others:
  assumes inv: "process_inv p" and ext: "extends (ps_world p) w'"
    and rt: "\<And>a. routes E (ps_world p) a \<noteq> None \<Longrightarrow> routes E w' a = routes E (ps_world p) a"
    and hs: "\<And>e. e \<in> set (ps_exclusive p) \<Longrightarrow> eb_handle e \<in> set hs \<longleftrightarrow> eb_handle e \<in> set (ps_handles p)"
    and lb: "\<And>b. b \<in> set (ps_groups p) \<Longrightarrow> lb_handles (gb_group b) hs = lb_handles (gb_group b) (ps_handles p)"
    and pu: "\<And>e. e \<in> set (ps_exclusive p) \<Longrightarrow>
      eb_chan e \<in> set (push_chans subs) \<longleftrightarrow> eb_chan e \<in> set (push_chans (ps_subs p))"
    and pl: "\<And>b. b \<in> set (ps_groups p) \<Longrightarrow> pull_subs (gb_group b) subs = pull_subs (gb_group b) (ps_subs p)"
  shows "\<And>e. e \<in> set (ps_exclusive p) \<Longrightarrow> exclusive_ok hs subs w' e"
    and "\<And>b. b \<in> set (ps_groups p) \<Longrightarrow> group_ok hs subs (ps_dropped p) w' b"
proof -
  have ids: "\<And>e i. e \<in> set (ps_exclusive p) \<Longrightarrow> i \<in> set (eb_ids e) \<Longrightarrow> i < next_id (ps_world p)"
      "\<And>b i. b \<in> set (ps_groups p) \<Longrightarrow> i \<in> set (gb_ids b) \<Longrightarrow> i < next_id (ps_world p)"
    using process_invD(3) [OF inv] by (auto simp: ids_ok_def binding_ids_def)
  show "exclusive_ok hs subs w' e" if e: "e \<in> set (ps_exclusive p)" for e
  proof (rule exclusive_ok_extends [OF process_invD(6) [OF inv e] ext])
    show "eb_handle e \<in> set (ps_handles p) \<Longrightarrow> routes E w' (eb_address e) = routes E (ps_world p) (eb_address e)"
      using process_invD(6) [OF inv e] rt by (simp add: exclusive_ok_def)
  qed (use ids e hs pu in auto)
  show "group_ok hs subs (ps_dropped p) w' b" if "b \<in> set (ps_groups p)" for b
    using group_ok_extends [OF process_invD(7) [OF inv that] ext] ids(2) that lb pl by blast
qed

lemma bind_state_extends: "extends w (bind_state c w)"
  by (auto simp: extends_def) (simp_all add: bind_state_def slot_new_def chan_alloc_def fresh_def)

lemma extends_sender: "extends w w' \<Longrightarrow> slot_sender (slots w' s) = Some ch \<Longrightarrow>
    slot_sender (slots w s) = Some ch \<or> next_id w \<le> ch \<and> ch < next_id w'"
  by (simp add: extends_def)

lemma extends_trans:
  assumes "extends w w1" and "extends w1 w2"
  shows "extends w w2"
proof -
  have n: "next_id w \<le> next_id w1" "next_id w1 \<le> next_id w2" using assms by (simp_all add: extends_def)
  have "slot_sender (slots w s) = Some ch \<or> next_id w \<le> ch \<and> ch < next_id w2"
    if "slot_sender (slots w2 s) = Some ch" for s ch
  proof -
    have "slot_sender (slots w1 s) = Some ch \<or> next_id w1 \<le> ch \<and> ch < next_id w2"
      using assms(2) that by (simp add: extends_def)
    then show ?thesis using extends_sender [OF assms(1)] n by (meson less_le_trans order_trans)
  qed
  then show ?thesis using assms n by (simp add: extends_def)
qed

lemma reply_dispatcher_extends: "reply_dispatcher_new ch w = (r, w') \<Longrightarrow> extends w w'"
  by (auto simp: reply_dispatcher_new_def fresh_def extends_def)

text \<open>A state that only grew, with the same registry.\<close>

lemma extends_inv:
  assumes inv: "process_inv p" and ext: "extends (ps_world p) w'" and i: "inner w' = inner (ps_world p)"
    and tk: "tasks w' = tasks (ps_world p)" and rd: "dispatchers w' = dispatchers (ps_world p)"
  shows "process_inv (p\<lparr>ps_world := w'\<rparr>)"
proof -
  have r: "routes E w' = routes E (ps_world p)" by (rule routes_inner [OF i])
  have "ids_ok (p\<lparr>ps_world := w'\<rparr>)"
    using process_invD(3) [OF inv] ext by (simp add: ids_ok_def extends_def) (meson less_le_trans)
  moreover have "owned_ok (p\<lparr>ps_world := w'\<rparr>)" "routes_ok (p\<lparr>ps_world := w'\<rparr>)"
    using process_invD(4,5) [OF inv] by (simp_all add: owned_ok_def routes_ok_def tk rd r)
  moreover have "registry_reachable E w'" using reach_step [OF process_invD(1) [OF inv] step_other [OF i]] .
  ultimately show ?thesis
    using extends_others [OF inv ext] r by (simp add: process_inv_def)
qed

lemma register_world:
  "next_id (snd (register E a t w)) = next_id w" "reqs (snd (register E a t w)) = reqs w"
  "tasks (snd (register E a t w)) = tasks w" "dispatchers (snd (register E a t w)) = dispatchers w"
  by (simp_all add: register_def split: sum.split lookup_result.split)

lemma bind_state_world:
  "next_id (bind_state c w) = Suc (Suc (next_id w))" "reqs (bind_state c w) = reqs w"
  "tasks (bind_state c w) = tasks w" "dispatchers (bind_state c w) = dispatchers w"
  by (simp_all add: bind_state_def slot_new_def chan_alloc_def fresh_def)

lemma create_channel_new:
  assumes "create_channel (d_msgs E) n = Some c"
  shows "txs c = 1" "rx c" "queue c = []"
proof -
  have "1 \<le> n \<and> n \<le> MAX_PERMITS"
    using assms msgs.mp_new_panic [of n] by (cases "n = 0 \<or> MAX_PERMITS < n") (auto simp: create_channel_def)
  then show "txs c = 1" "rx c" "queue c = []" using assms msgs.mp_new [of n] by (auto simp: create_channel_def)
qed

text \<open>The state after an exclusive binding, as far as the invariant sees it.\<close>

lemma bind_exclusive_effect:
  assumes inv: "process_inv p" and u: "is_utf8 a"
    and b: "bind_exclusive E n a (ps_world p) = Some (Inr (ch, s), w')"
  shows "ch = next_id (ps_world p)" "s = Suc ch" "next_id w' = Suc s" "extends (ps_world p) w'"
    "tasks w' = tasks (ps_world p)" "dispatchers w' = dispatchers (ps_world p)"
    "registry_reachable E w'" "routes E w' = (routes E (ps_world p))(a \<mapsto> Single s)" "routes E (ps_world p) a = None"
    "slot_channel_ok txs s ch w'" "slot_sender (slots w' s) = Some ch" "receiver_ok rx ch w'"
proof -
  let ?w = "ps_world p"
  obtain c where c: "create_channel (d_msgs E) (unat n) = Some c" "ch = next_id ?w" "s = Suc ch"
      "register E a (Single s) (bind_state c ?w) = (Inr (), w')"
      "chans w' = (chans ?w)(ch \<mapsto> c)" "slots w' = (slots ?w)(s := \<lparr>slot_sender = Some ch, slot_version = 1\<rparr>)"
    using bind_exclusive_Inr [OF b] by metis
  note reg = register_frame [of E a "Single s" "bind_state c ?w"] register_world [of a "Single s" "bind_state c ?w"]
  show 1: "ch = next_id ?w" "s = Suc ch" "next_id w' = Suc s"
    using c(2-4) reg by (simp_all add: bind_state_world)
  show tk: "tasks w' = tasks ?w" "dispatchers w' = dispatchers ?w"
    using c(4) reg by (simp_all add: bind_state_world)
  have "reqs w' = reqs ?w" "groups w' = groups ?w" using c(4) reg by (simp_all add: bind_state_world)
  with c tk 1 show "extends ?w w'" by (auto simp: extends_def)
  show "registry_reachable E w'" by (rule bind_exclusive_reachable [OF process_invD(1) [OF inv] u b])
  show "routes E w' = (routes E ?w)(a \<mapsto> Single s)" by (rule bind_exclusive_routes [OF process_invD(1) [OF inv] b])
  show "routes E ?w a = None"
    using tree.check_free_find_route [of "inner ?w" a] fst_register_free [OF c(4)] by (simp add: routes_def)
  have "slot_sender (slots ?w t) \<noteq> Some ch" for t
    using process_invD(3) [OF inv] c(2) by (auto simp: ids_ok_def)
  then show "slot_channel_ok txs s ch w'" "slot_sender (slots w' s) = Some ch" "receiver_ok rx ch w'"
    using c create_channel_new [OF c(1)] by (auto simp: slot_channel_ok_def receiver_ok_def)
qed

lemma fresh_bindings:
  assumes inv: "process_inv p" and i: "next_id (ps_world p) \<le> i"
  shows "e \<in> set (ps_exclusive p) \<Longrightarrow> i \<notin> set (eb_ids e)" "b \<in> set (ps_groups p) \<Longrightarrow> i \<notin> set (gb_ids b)"
proof -
  have "j \<in> set (binding_ids p) \<Longrightarrow> j < next_id (ps_world p)" for j
    using process_invD(3) [OF inv] by (simp add: ids_ok_def)
  then have "i \<notin> set (binding_ids p)" using i by (auto simp: not_le [symmetric])
  then show "e \<in> set (ps_exclusive p) \<Longrightarrow> i \<notin> set (eb_ids e)" "b \<in> set (ps_groups p) \<Longrightarrow> i \<notin> set (gb_ids b)"
    by (auto simp: binding_ids_def)
qed

lemma ids_ok_add:
  assumes "ids_ok p" and "extends (ps_world p) (ps_world p')" and "distinct xs"
    and "\<And>i. i \<in> set xs \<Longrightarrow> next_id (ps_world p) \<le> i \<and> i < next_id (ps_world p')"
    and "distinct (binding_ids p') \<longleftrightarrow> distinct (xs @ binding_ids p)" and "set (binding_ids p') = set xs \<union> set (binding_ids p)"
  shows "ids_ok p'"
proof -
  have "distinct (binding_ids p')" using assms by (auto simp: ids_ok_def leD)
  moreover have "\<forall>i\<in>set (binding_ids p'). i < next_id (ps_world p')"
    using assms by (auto simp: ids_ok_def extends_def intro: less_le_trans)
  moreover have "ch < next_id (ps_world p')" if "slot_sender (slots (ps_world p') s) = Some ch" for s ch
    using assms(1,2) that unfolding ids_ok_def extends_def by (metis less_le_trans)
  ultimately show ?thesis by (simp add: ids_ok_def)
qed

lemma new_exclusive_inv:
  assumes inv: "process_inv p" and u: "is_utf8 a"
    and bind: "bind_exclusive E n a (ps_world p) = Some (Inr (ch, s), w1)"
    and l: "l = None \<and> w2 = w1 \<and> subs = \<lparr>sub_mode = Push ch, sub_address = a\<rparr> # ps_subs p \<or>
      (\<exists>r. l = Some r \<and> reply_dispatcher_new ch w1 = (r, w2) \<and> subs = ps_subs p)"
  shows "process_inv (p\<lparr>ps_world := w2, ps_handles := HandleExclusive a s # ps_handles p, ps_subs := subs,
    ps_exclusive := \<lparr>eb_address = a, eb_chan = ch, eb_slot = s, eb_listener = l\<rparr> # ps_exclusive p\<rparr>)"
    (is "process_inv ?p'")
proof -
  let ?w = "ps_world p" and ?h = "HandleExclusive a s"
  let ?e = "\<lparr>eb_address = a, eb_chan = ch, eb_slot = s, eb_listener = l\<rparr>"
  note ef = bind_exclusive_effect [OF inv u bind]
  have same: "inner w2 = inner w1" "slots w2 = slots w1" "chans w2 = chans w1" "tasks w2 = tasks w1"
      "reqs w2 = reqs w1" "groups w2 = groups w1" "next_id w1 \<le> next_id w2"
    using l by (auto simp: reply_dispatcher_new_def fresh_def)
  have dis: "dispatchers w2 = (case l of None \<Rightarrow> dispatchers ?w
      | Some r \<Rightarrow> (dispatchers ?w)(r := \<lparr>rd_waiters = [], rd_chan = ch, rd_pc = Listening, rd_abort = False\<rparr>))"
    and lr: "\<And>r. l = Some r \<Longrightarrow> r = next_id w1 \<and> next_id w2 = Suc r"
    using l ef(6) by (auto simp: reply_dispatcher_new_def fresh_def)
  have ext: "extends ?w w2"
    using l ef(4) reply_dispatcher_extends extends_trans by metis
  have rt: "routes E w2 = (routes E ?w)(a \<mapsto> Single s)" using ef(8) routes_inner [OF same(1)] by simp
  have fe: "ch \<notin> set (eb_ids e)" "s \<notin> set (eb_ids e)" "\<And>r. l = Some r \<Longrightarrow> r \<notin> set (eb_ids e)"
    if "e \<in> set (ps_exclusive p)" for e
    using fresh_bindings(1) [OF inv _ that] ef(1-3) lr by (auto simp: Suc_le_eq)
  have fg: "ch \<notin> set (gb_ids b)" "s \<notin> set (gb_ids b)" "\<And>r. l = Some r \<Longrightarrow> r \<notin> set (gb_ids b)"
    if "b \<in> set (ps_groups p)" for b
    using fresh_bindings(2) [OF inv _ that] ef(1-3) lr by (auto simp: Suc_le_eq)
  have nh: "?h \<notin> set (ps_handles p)" using handle_binding [OF inv] fe(2) eb_ids_simps(2) by metis
  have pcs: "push_chans subs = (case l of None \<Rightarrow> [ch] | Some r \<Rightarrow> []) @ push_chans (ps_subs p)"
    and pls: "pull_subs g subs = pull_subs g (ps_subs p)" for g
    using l by auto
  have npc: "ch \<notin> set (push_chans (ps_subs p))"
    using process_invD(4) [OF inv] fe(1) by (fastforce simp: owned_ok_def)
  have others: "\<And>e. e \<in> set (ps_exclusive p) \<Longrightarrow> exclusive_ok (?h # ps_handles p) subs w2 e"
      "\<And>b. b \<in> set (ps_groups p) \<Longrightarrow> group_ok (?h # ps_handles p) subs (ps_dropped p) w2 b"
  proof -
    have hs: "eb_handle e \<in> set (?h # ps_handles p) \<longleftrightarrow> eb_handle e \<in> set (ps_handles p)"
        "eb_chan e \<in> set (push_chans subs) \<longleftrightarrow> eb_chan e \<in> set (push_chans (ps_subs p))"
      if "e \<in> set (ps_exclusive p)" for e
      using fe(1,2) [OF that] by (auto simp: eb_handle_def eb_ids_def pcs split: option.splits)
    have "routes E w2 x = routes E ?w x" if "routes E ?w x \<noteq> None" for x using that ef(9) by (auto simp: rt)
    from extends_others [OF inv ext this hs(1) _ hs(2) pls]
    show "\<And>e. e \<in> set (ps_exclusive p) \<Longrightarrow> exclusive_ok (?h # ps_handles p) subs w2 e"
      "\<And>b. b \<in> set (ps_groups p) \<Longrightarrow> group_ok (?h # ps_handles p) subs (ps_dropped p) w2 b" by simp_all
  qed
  have new: "exclusive_ok (?h # ps_handles p) subs w2 ?e"
  proof -
    have "slot_channel_ok txs s ch w2" "receiver_ok rx ch w2"
      using ef(10,12) by (simp_all add: slot_channel_ok_def receiver_ok_def same(2,3))
    then show ?thesis
      using ef(11) by (simp add: exclusive_ok_def eb_handle_def rt same(2) dis split: option.split)
  qed
  have ids: "ids_ok ?p'"
  proof (rule ids_ok_add [OF process_invD(3) [OF inv], where xs = "eb_ids ?e"])
    show "distinct (eb_ids ?e)" using ef(2,3) lr by (auto simp: eb_ids_def split: option.split)
    show "next_id ?w \<le> i \<and> i < next_id (ps_world ?p')" if "i \<in> set (eb_ids ?e)" for i
      using that ef(1-3) same(7) lr by (auto simp: eb_ids_def split: option.splits)
  qed (use ext in \<open>auto simp: binding_ids_def\<close>)
  have own: "owned_ok ?p'"
  proof -
    note O = owned_okD [OF process_invD(4) [OF inv]]
    show ?thesis
    proof (rule owned_okI)
      show "h \<in> eb_handle ` set (ps_exclusive ?p')" if "h \<in> set (ps_handles ?p')" "exclusive_handle h" for h
        using that O(1) by (auto simp: eb_handle_def)
      show "distinct (filter exclusive_handle (ps_handles ?p'))" using O(2) nh by simp
      show "g \<notin> set (ps_dropped ?p') \<and> (\<exists>b\<in>set (ps_groups ?p'). gb_group b = g \<and> gb_address b = x)"
        if "HandleLoadBalanced x g \<in> set (ps_handles ?p') \<or> (x, g) \<in> set (ps_joining ?p')" for x g
        using that O(3) [of x g] by simp
      show "distinct (push_chans (ps_subs ?p'))" using O(4) npc by (cases l) (simp_all add: pcs)
      show "\<exists>e\<in>set (ps_exclusive ?p'). eb_chan e = c \<and> eb_listener e = None"
        if "c \<in> set (push_chans (ps_subs ?p'))" for c
        using that O(5) [of c] by (cases l) (auto simp: pcs)
      show "\<exists>b\<in>set (ps_groups ?p'). gb_group b = g \<and> gb_req b = r"
        if "sub \<in> set (ps_subs ?p')" "sub_mode sub = Pull r g" for sub r g
        using that O(6) [of sub r g] l by auto
      show "t \<in> gb_task ` set (ps_groups ?p')" if "tasks (ps_world ?p') t \<noteq> None" for t
        using that O(7) [of t] ef(5) same(4) by simp
      show "Some r \<in> eb_listener ` set (ps_exclusive ?p')" if "rd_pc (dispatchers (ps_world ?p') r) \<noteq> ListenerEnded" for r
        using that O(8) [of r] dis by (cases l) (auto split: if_splits)
      show "set (ps_dropped ?p') \<subseteq> gb_group ` set (ps_groups ?p')" using O(9) by simp
    qed
  qed
  have ro: "routes_ok ?p'"
    using process_invD(5) [OF inv] by (auto simp: routes_ok_def rt)
  have "registry_reachable E w2" using reach_step [OF ef(7) step_other [OF same(1)]] .
  with others new ids own ro show ?thesis by (simp add: process_inv_def)
qed

lemma bind_refused_inv:
  assumes inv: "process_inv p" and b: "bind_exclusive E n a (ps_world p) = Some (Inl e, w')"
  shows "process_inv (p\<lparr>ps_world := w'\<rparr>)"
proof -
  let ?w = "ps_world p" and ?ch = "next_id (ps_world p)"
  obtain c w3 where c: "register E a (Single (Suc ?ch)) (bind_state c ?w) = (Inl e, w3)"
      "w' = chan_drop_rx E ?ch (chan_drop_tx E ?ch w3)"
    using b by (auto simp: bind_exclusive_eq split: option.splits prod.splits sum.splits)
  have w3: "w3 = bind_state c ?w"
    using c(1) by (auto simp: register_def split: sum.splits lookup_result.splits)
  have "extends ?w w'"
    using bind_state_extends [of ?w c] unfolding c(2) w3
    by (simp add: extends_def chan_drop_rx_def chan_drop_tx_def)
  then show ?thesis
    by (rule extends_inv [OF inv])
      (simp_all add: c(2) w3 frame_simps, simp_all add: chan_drop_rx_def chan_drop_tx_def bind_state_world)
qed

lemma subscribe_exclusive_inv:
  assumes inv: "process_inv p" and np: "\<not> ps_poisoned p" and u: "is_utf8 a"
    and st: "p_subscribe_exclusive E a cfg p = (q, p')"
  shows "process_inv p'"
proof (cases "bind_exclusive E (channel_capacity cfg) a (ps_world p)")
  case None
  then show ?thesis using st inv by (simp add: p_subscribe_exclusive_def)
next
  case (Some x)
  obtain res w' where x: "x = (res, w')" by fastforce
  show ?thesis
  proof (cases res)
    case (Inl e)
    then show ?thesis using st np Some x bind_refused_inv [OF inv] by (auto simp: p_subscribe_exclusive_def)
  next
    case (Inr y)
    obtain ch s where y: "y = (ch, s)" by fastforce
    have "bind_exclusive E (channel_capacity cfg) a (ps_world p) = Some (Inr (ch, s), w')" using Some x Inr y by simp
    from new_exclusive_inv [OF inv u this, of None w' "\<lparr>sub_mode = Push ch, sub_address = a\<rparr> # ps_subs p"]
    show ?thesis using st np Some x Inr y by (auto simp: p_subscribe_exclusive_def Let_def)
  qed
qed

lemma client_new_inv:
  assumes inv: "process_inv p" and np: "\<not> ps_poisoned p" and u: "is_utf8 a"
    and st: "p_client_new E bcfg cfg a p = (q, p')"
  shows "process_inv p'"
proof (cases "bind_exclusive E (reply_channel_capacity cfg) a (ps_world p)")
  case None
  then show ?thesis using st inv by (simp add: p_client_new_def)
next
  case (Some x)
  obtain res w1 where x: "x = (res, w1)" by fastforce
  show ?thesis
  proof (cases res)
    case (Inl e)
    then show ?thesis using st np Some x bind_refused_inv [OF inv] by (auto simp: p_client_new_def)
  next
    case (Inr y)
    obtain ch s where y: "y = (ch, s)" by fastforce
    obtain r w2 where r: "reply_dispatcher_new ch w1 = (r, w2)" by fastforce
    have "bind_exclusive E (reply_channel_capacity cfg) a (ps_world p) = Some (Inr (ch, s), w1)" using Some x Inr y by simp
    from new_exclusive_inv [OF inv u this, of "Some r" w2 "ps_subs p"] r
    have n: "process_inv (p\<lparr>ps_world := w2, ps_handles := HandleExclusive a s # ps_handles p, ps_subs := ps_subs p,
        ps_exclusive := \<lparr>eb_address = a, eb_chan = ch, eb_slot = s, eb_listener = Some r\<rparr> # ps_exclusive p\<rparr>)"
      by simp
    have "p' = p\<lparr>ps_world := w2, ps_handles := HandleExclusive a s # ps_handles p, ps_subs := ps_subs p,
        ps_exclusive := \<lparr>eb_address = a, eb_chan = ch, eb_slot = s, eb_listener = Some r\<rparr> # ps_exclusive p\<rparr>"
      using st np Some x Inr y r by (cases p) (auto simp: p_client_new_def Let_def)
    with n show ?thesis by simp
  qed
qed

end

text \<open>The state after the factory of a load-balanced address has run.\<close>

definition lb_state :: "'c \<Rightarrow> 'd \<Rightarrow> bytes \<Rightarrow> ('t, 'c, 'd, 'o) world \<Rightarrow> ('t, 'c, 'd, 'o) world" where
  "lb_state c d a w = (let n = next_id w in w\<lparr>next_id := n + 5, chans := (chans w)(n \<mapsto> c),
     slots := (slots w)(n + 1 := \<lparr>slot_sender = Some n, slot_version = 1\<rparr>), reqs := (reqs w)(n + 2 \<mapsto> d),
     groups := (groups w)(n + 3 := \<lparr>grp_slot = n + 1, grp_handle = Some (n + 4), grp_version = 1, grp_req = n + 2,
       grp_req_count = 1, grp_address = a, grp_consumers = 0\<rparr>),
     tasks := (tasks w)(n + 4 \<mapsto> \<lparr>task_pc = WaitRequest, task_abort = False, task_main = n, task_req = n + 2,
       task_slot = n + 1, task_address = a\<rparr>)\<rparr>)"

lemma lb_factory_eq:
  "lb_factory E capacity a w = (case create_channel (d_msgs E) (unat capacity) of
     None \<Rightarrow> None
   | Some c \<Rightarrow> (case create_request_channel (d_reqs E) 1000 of
       None \<Rightarrow> None
     | Some d \<Rightarrow> Some (Inr (LoadBalanced (next_id w + 3)), lb_state c d a w)))"
  by (simp add: lb_factory_def lb_state_def chan_alloc_def slot_new_def fresh_def new_load_balanced_def group_new_def
      Let_def numeral_eq_Suc split: option.split)

context env
begin

lemma create_request_channel_new:
  obtains d where "create_request_channel (d_reqs E) 1000 = Some d" "rtxs d = 1" "rrx d"
  using requests.mp_new [of 1000] that by (auto simp: create_request_channel_def MAX_PERMITS_def)

lemma new_group_inv:
  assumes inv: "process_inv p" and u: "is_utf8 a" and c: "create_channel (d_msgs E) n = Some c"
    and d: "rtxs d = 1" "rrx d" and free: "check_address_free (d_radix E) (inner (ps_world p)) a = Inr NotFound"
    and w': "w' = (lb_state c d a (ps_world p))\<lparr>inner :=
      insert_route (d_radix E) a (LoadBalanced (next_id (ps_world p) + 3)) (inner (ps_world p))\<rparr>"
    and reg: "registry_reachable E w'"
  shows "process_inv (p\<lparr>ps_world := w', ps_joining := (a, next_id (ps_world p) + 3) # ps_joining p,
    ps_groups := binding_of a (next_id (ps_world p) + 3) w' # ps_groups p\<rparr>)" (is "process_inv ?p'")
proof -
  let ?w = "ps_world p" and ?n = "next_id (ps_world p)"
  let ?b = "\<lparr>gb_address = a, gb_chan = ?n, gb_slot = ?n + 1, gb_req = ?n + 2, gb_group = ?n + 3, gb_task = ?n + 4\<rparr>"
  have b: "binding_of a (?n + 3) w' = ?b" by (simp add: binding_of_def w' lb_state_def Let_def)
  have ext: "extends ?w w'" by (simp add: w' lb_state_def Let_def extends_def)
  have rt: "routes E w' = (routes E ?w)(a \<mapsto> LoadBalanced (?n + 3))"
    using tree.find_route_insert [OF process_invD(2) [OF inv] free] by (auto simp: routes_def w' fun_eq_iff)
  have ra: "routes E ?w a = None" using tree.check_free_find_route [OF free] by (simp add: routes_def)
  have fr: "?n + i \<notin> set (gb_ids b')" if "b' \<in> set (ps_groups p)" for b' i
    using fresh_bindings(2) [OF inv _ that, of "?n + i"] by simp
  have ng: "gb_group b' \<noteq> ?n + 3" if "b' \<in> set (ps_groups p)" for b'
    using fr [OF that, of 3] by (auto simp: gb_ids_def)
  note O = owned_okD [OF process_invD(4) [OF inv]]
  have lb0: "lb_handles (?n + 3) (ps_handles p) = 0"
  proof -
    have "\<not> handle_of_group (?n + 3) h" if "h \<in> set (ps_handles p)" for h
    proof (cases h)
      case (HandleLoadBalanced x g)
      then show ?thesis using that O(3) [of x g] ng by auto
    qed simp
    then show ?thesis by (simp add: lb_handles_def)
  qed
  have pl0: "pull_subs (?n + 3) (ps_subs p) = 0"
  proof -
    have "\<not> pull_of_group (?n + 3) (sub_mode sub)" if "sub \<in> set (ps_subs p)" for sub
      using O(6) [OF that] ng by (cases "sub_mode sub") auto
    then show ?thesis by (simp add: pull_subs_def)
  qed
  have nd: "?n + 3 \<notin> set (ps_dropped p)" using O(9) ng by force
  have "routes E w' x = routes E ?w x" if "routes E ?w x \<noteq> None" for x using that ra by (auto simp: rt)
  then have others: "\<And>e. e \<in> set (ps_exclusive p) \<Longrightarrow> exclusive_ok (ps_handles p) (ps_subs p) w' e"
      "\<And>b. b \<in> set (ps_groups p) \<Longrightarrow> group_ok (ps_handles p) (ps_subs p) (ps_dropped p) w' b"
    using extends_others [OF inv ext, of "ps_handles p" "ps_subs p"] by blast+
  have nosender: "slot_sender (slots ?w t) \<noteq> Some ?n" for t
    using process_invD(3) [OF inv] by (auto simp: ids_ok_def)
  have new: "group_ok (ps_handles p) (ps_subs p) (ps_dropped p) w' ?b"
  proof -
    have "slot_channel_ok txs (?n + 1) ?n w'" "receiver_ok rx ?n w'"
      using nosender create_channel_new [OF c]
      by (auto simp: slot_channel_ok_def receiver_ok_def w' lb_state_def Let_def)
    then show ?thesis
      using d lb0 pl0 nd by (simp add: group_ok_def group_task_ok_def) (simp add: w' lb_state_def Let_def)
  qed
  have ids: "ids_ok ?p'"
  proof (rule ids_ok_add [OF process_invD(3) [OF inv], where xs = "gb_ids ?b"])
    show "extends ?w (ps_world ?p')" using ext by simp
    show "?n \<le> i \<and> i < next_id (ps_world ?p')" if "i \<in> set (gb_ids ?b)" for i
      using that by (auto simp: gb_ids_def w' lb_state_def Let_def)
  qed (auto simp: binding_ids_def b gb_ids_def)
  have tk: "tasks w' = (tasks ?w)(?n + 4 \<mapsto> \<lparr>task_pc = WaitRequest, task_abort = False, task_main = ?n,
      task_req = ?n + 2, task_slot = ?n + 1, task_address = a\<rparr>)" and rd: "dispatchers w' = dispatchers ?w"
    by (simp_all add: w' lb_state_def Let_def)
  have own: "owned_ok ?p'"
  proof (rule owned_okI)
    show "g \<notin> set (ps_dropped ?p') \<and> (\<exists>b\<in>set (ps_groups ?p'). gb_group b = g \<and> gb_address b = x)"
      if "HandleLoadBalanced x g \<in> set (ps_handles ?p') \<or> (x, g) \<in> set (ps_joining ?p')" for x g
      using that O(3) [of x g] nd by (auto simp: b)
    show "t \<in> gb_task ` set (ps_groups ?p')" if "tasks (ps_world ?p') t \<noteq> None" for t
      using that O(7) [of t] by (auto simp: b tk split: if_splits)
  qed (use O rd in \<open>auto simp: b\<close>)
  have ro: "routes_ok ?p'"
    using process_invD(5) [OF inv] nd by (auto simp: routes_ok_def rt b)
  show ?thesis using reg others new ids own ro by (simp add: process_inv_def b)
qed

lemma lb_resolve_inv:
  assumes inv: "process_inv p" and np: "\<not> ps_poisoned p" and u: "is_utf8 a"
    and st: "p_lb_resolve E a cfg p = (q, p')" and ok: "\<not> ps_poisoned p'"
  shows "process_inv p'"
proof (cases "check_address_free (d_radix E) (inner (ps_world p)) a = Inr NotFound")
  case False
  let ?g = "get_existing_or_register E a (lb_factory E (channel_capacity cfg) a) (ps_world p)"
  show ?thesis
  proof (cases "check_address_free (d_radix E) (inner (ps_world p)) a")
    case (Inr l)
    show ?thesis
    proof (cases l)
      case (Duplicate t)
      have f: "routes E (ps_world p) a = Some t"
        using Inr Duplicate tree.duplicate_find_route by (simp add: routes_def)
      have g: "?g = Some (Inr (AlreadyExists t), ps_world p)"
        using Inr Duplicate by (simp add: get_existing_or_register_def)
      show ?thesis
      proof (cases t)
        case (Single s)
        then show ?thesis using st np g inv by (auto simp: p_lb_resolve_def target_load_balanced_group_def)
      next
        case (LoadBalanced h)
        then have "p' = p\<lparr>ps_joining := (a, h) # ps_joining p\<rparr>"
          using st np g by (auto simp: p_lb_resolve_def target_load_balanced_group_def)
        moreover have "owned_ok (p\<lparr>ps_joining := (a, h) # ps_joining p\<rparr>)"
        proof (rule owned_okI)
          note O = owned_okD [OF process_invD(4) [OF inv]]
          let ?p = "p\<lparr>ps_joining := (a, h) # ps_joining p\<rparr>"
          obtain b where b: "b \<in> set (ps_groups p)" "gb_group b = h" "gb_address b = a" "h \<notin> set (ps_dropped p)"
            using route_group [OF inv] f LoadBalanced by metis
          show "g \<notin> set (ps_dropped ?p) \<and> (\<exists>b\<in>set (ps_groups ?p). gb_group b = g \<and> gb_address b = x)"
            if "HandleLoadBalanced x g \<in> set (ps_handles ?p) \<or> (x, g) \<in> set (ps_joining ?p)" for x g
            using that b O(3) [of x g] by auto
        qed (use owned_okD [OF process_invD(4) [OF inv]] in auto)
        ultimately show ?thesis
          using inv by (simp add: process_inv_def ids_ok_def routes_ok_def)
      qed
    qed (use st np inv Inr False in \<open>auto simp: p_lb_resolve_def get_existing_or_register_def\<close>)
  qed (use st np inv in \<open>auto simp: p_lb_resolve_def get_existing_or_register_def\<close>)
next
  case True
  let ?n = "next_id (ps_world p)" and ?g = "get_existing_or_register E a (lb_factory E (channel_capacity cfg) a) (ps_world p)"
  obtain d where d: "create_request_channel (d_reqs E) 1000 = Some d" "rtxs d = 1" "rrx d"
    using create_request_channel_new .
  show ?thesis
  proof (cases "create_channel (d_msgs E) (unat (channel_capacity cfg))")
    case None
    then have "?g = None" using True by (simp add: get_existing_or_register_def lb_factory_eq)
    then show ?thesis using st np ok by (auto simp: p_lb_resolve_def)
  next
    case (Some c)
    let ?w' = "(lb_state c d a (ps_world p))\<lparr>inner := insert_route (d_radix E) a (LoadBalanced (?n + 3)) (inner (ps_world p))\<rparr>"
    have g: "?g = Some (Inr (Registered (LoadBalanced (?n + 3))), ?w')"
      using True Some d(1) by (simp add: get_existing_or_register_def lb_factory_eq)
    have reg: "registry_reachable E ?w'"
      using reach_step [OF process_invD(1) [OF inv] step_get_or_register [OF u lb_factory_frame g]] .
    have "p' = p\<lparr>ps_world := ?w', ps_joining := (a, ?n + 3) # ps_joining p,
        ps_groups := binding_of a (?n + 3) ?w' # ps_groups p\<rparr>"
      using st np g by (auto simp: p_lb_resolve_def target_load_balanced_group_def)
    with new_group_inv [OF inv u Some d(2,3) True refl reg] show ?thesis by simp
  qed
qed

lemma process_step_inv:
  assumes inv: "process_inv p" and np: "\<not> ps_poisoned p" and st: "process_step E built p p'" and ok: "\<not> ps_poisoned p'"
  shows "process_inv p'"
  using st
proof (cases rule: process_step.cases)
  case (ps_subscribe_exclusive a cfg q)
  then show ?thesis using subscribe_exclusive_inv [OF inv np] by blast
next
  case (ps_client_new a cfg bcfg q)
  then show ?thesis using client_new_inv [OF inv np] by blast
next
  case (ps_lb_resolve a cfg q)
  then show ?thesis using lb_resolve_inv [OF inv np _ _ ok] by blast
next
  case (ps_lb_join a g q)
  then show ?thesis using lb_join_inv [OF inv] by blast
next
  case (ps_handle_drop h q)
  then show ?thesis
    using np exclusive_drop_inv [OF inv] consumer_drop_inv [OF inv]
    by (auto simp: p_handle_drop_def handle_drop_def Let_def split: subscription_handle.splits)
next
  case (ps_subscriber_drop sub)
  then show ?thesis using subscriber_drop_inv [OF inv] by blast
next
  case (ps_group_drop b)
  then show ?thesis using group_drop_inv [OF inv] by blast
next
  case (ps_dispatcher t l)
  then show ?thesis using np dispatcher_step_inv [OF inv] by (auto simp: p_dispatcher_step_def)
next
  case (ps_task w')
  then show ?thesis using task_step_inv [OF inv] by blast
qed

text \<open>A poisoned lock stays poisoned.\<close>

lemma poisoned_step: "process_step E built p p' \<Longrightarrow> ps_poisoned p \<Longrightarrow> ps_poisoned p'"
  by (induction rule: process_step.induct)
    (auto simp: p_subscribe_exclusive_def p_client_new_def p_lb_resolve_def p_lb_join_def p_handle_drop_def
      p_subscriber_drop_def p_group_drop_def p_dispatcher_step_def Let_def
      split: option.splits prod.splits sum.splits subscription_handle.splits if_splits)

lemma process_reachable_inv:
  "process_reachable E built p \<Longrightarrow> \<not> ps_poisoned p \<Longrightarrow> process_inv p"
proof (induction rule: process_reachable.induct)
  case pr_start
  show ?case by (rule process_inv_new)
next
  case (pr_step p p')
  then have "\<not> ps_poisoned p" using poisoned_step by blast
  with pr_step show ?case using process_step_inv by blast
qed

end

end
