(* ===== verification/Process_Props.thy ===== *)
theory Process_Props
  imports Process_Create
begin

text \<open>
  What the invariant of a process means for its callers: exclusive addresses are bound exactly while
  their handle lives, messages to a live subscription are accepted, reference counts are exact, a
  receive loop ends with everything that was queued, a dispatcher never spins, and what a panic under
  the lock of the registry does to the rest of the process.
\<close>

section \<open>Loops\<close>

text \<open>
  \<^verbatim>\<open>while let Some(_msg) = subscriber.recv().await { count += 1; }\<close>, the receiver task of the load
  test; it has no result while it waits.
\<close>

partial_function (option) receive_loop ::
    "('t, 'c, 'd, 'o) deps \<Rightarrow> subscriber \<Rightarrow> nat \<Rightarrow> ('t, 'c, 'd, 'o) world \<Rightarrow> nat option" where
  "receive_loop E sub count w = (case recv_poll E sub RecvStart w of
     (Pending, _, _) \<Rightarrow> None
   | (Ready None, _, _) \<Rightarrow> Some count
   | (Ready (Some _), _, w') \<Rightarrow> receive_loop E sub (count + 1) w')"

text \<open>Uninterrupted steps of one dispatcher.\<close>

fun dispatcher_steps ::
    "('t, 'c, 'd, 'o) deps \<Rightarrow> bool \<Rightarrow> nat \<Rightarrow> nat \<Rightarrow> ('t, 'c, 'd, 'o) world \<Rightarrow> ('t, 'c, 'd, 'o) world option" where
  "dispatcher_steps E alive t 0 w = Some w"
| "dispatcher_steps E alive t (Suc n) w = (case dispatcher_step E alive t w of
     None \<Rightarrow> None
   | Some (_, w') \<Rightarrow> dispatcher_steps E alive t n w')"

fun pc_weight :: "dispatcher_pc \<Rightarrow> nat" where
  "pc_weight (WaitMessage tok) = 4"
| "pc_weight (Deliver tok m) = 3"
| "pc_weight (WaitNext m) = 2"
| "pc_weight WaitRequest = 1"
| "pc_weight Finished = 0"
| "pc_weight Aborted = 0"

section \<open>Lemmas\<close>

lemma count_exclusive:
  "distinct (filter exclusive_handle hs) \<Longrightarrow> exclusive_handle h \<Longrightarrow> count_list hs h \<le> 1"
  by (induction hs) (auto simp: count_list_0_iff split: if_splits)

context env
begin

lemma handle_route:
  assumes "process_inv p" and "HandleExclusive a s \<in> set (ps_handles p)"
  shows "routes E (ps_world p) a = Some (Single s)"
proof -
  obtain e where "e \<in> set (ps_exclusive p)" "eb_address e = a" "eb_slot e = s" "eb_handle e = HandleExclusive a s"
    using handle_binding [OF assms] by metis
  then show ?thesis using process_invD(6) [OF assms(1)] assms(2) by (fastforce simp: exclusive_ok_def)
qed

lemma task_step_inner: "task_step E subs w w' \<Longrightarrow> inner w' = inner w"
proof (induction rule: task_step.induct)
  case (ts_listener r w w')
  then show ?case
    by (auto simp: listener_step_def dispatch_reply_def reply_send_def Let_def frame_simps
        split: listener_pc.splits option.splits poll.splits sum.splits)
next
  case (ts_recv sub w pc q pc' w')
  then show ?case
    by (auto simp: recv_poll_def cell_poll_def fresh_def
        split: subscriber_mode.splits option.splits poll.splits recv_pc.splits sum.splits)
next
  case (ts_try_recv sub w q w')
  then show ?case by (auto simp: subscriber_try_recv_def split: subscriber_mode.splits option.splits sum.splits)
next
  case (ts_dispatcher_abort t w w')
  then show ?case by (auto simp: dispatcher_abort_def frame_simps split: option.splits if_splits dispatcher_pc.splits)
next
  case (ts_listener_abort r w w')
  then show ?case by (auto simp: listener_abort_def frame_simps split: if_splits)
next
  case (ts_send m w w')
  then show ?case by (rule quietD(1) [OF quiet_client_send])
next
  case (ts_endpoint ep m w w')
  then show ?case by (rule quietD(1) [OF quiet_endpoint_send])
next
  case (ts_resume ch m w w')
  then show ?case by (rule quietD(1) [OF quiet_resume])
next
  case (ts_request elapsed r find_ep m w q w')
  then show ?case by (rule quietD(1) [OF quiet_request_begin])
next
  case (ts_request_poll elapsed rq w q w')
  then show ?case by (rule quietD(1) [OF quiet_request_poll])
next
  case (ts_cancel w i)
  show ?case by (rule quietD(1) [OF quiet_drop_cell(1)])
next
  case (ts_request_end w rq)
  show ?case by (rule quietD(1) [OF quiet_request_end])
next
  case (ts_replies_drop w r)
  show ?case by (rule quietD(1) [OF quiet_replies_drop])
qed

lemma dispatcher_step_inner:
  "dispatcher_step E False t w = Some (l, w') \<Longrightarrow> inner w' = inner w"
  by (auto simp: dispatcher_step_def dispatcher_finish_def task_recv_request_def task_recv_message_def reply_send_def
      Let_def frame_simps split: option.splits dispatcher_pc.splits poll.splits sum.splits)

text \<open>With a poisoned lock no step changes a route.\<close>

lemma poisoned_step_routes:
  assumes "process_step E built p p'" and "ps_poisoned p"
  shows "inner (ps_world p') = inner (ps_world p)"
  using assms
proof (induction rule: process_step.induct)
  case (ps_handle_drop h p q p')
  then show ?case
    by (auto simp: p_handle_drop_def handle_drop_def Let_def frame_simps split: subscription_handle.splits)
next
  case (ps_dispatcher t p l p')
  then show ?case by (auto simp: p_dispatcher_step_def dest: dispatcher_step_inner)
next
  case (ps_task p w')
  then show ?case by (simp add: task_step_inner)
next
  case (ps_subscriber_drop sub p)
  then show ?case
    by (simp add: p_subscriber_drop_def subscriber_drop_def frame_simps split: subscriber_mode.split)
next
  case (ps_group_drop b p)
  then show ?case by (simp add: p_group_drop_def group_drop_def frame_simps)
next
  case (ps_lb_join a g p q p')
  then show ?case by (auto simp: p_lb_join_def group_subscribe_def Let_def)
qed (auto simp: p_subscribe_exclusive_def p_client_new_def p_lb_resolve_def split: option.splits prod.splits)

lemma poisoned_run:
  assumes "(process_step E built)\<^sup>*\<^sup>* p p'" and "ps_poisoned p"
  shows "ps_poisoned p' \<and> routes E (ps_world p') = routes E (ps_world p)"
  using assms
proof (induction rule: rtranclp_induct)
  case (step p1 p2)
  then show ?case using poisoned_step poisoned_step_routes routes_inner by metis
qed simp

lemma poisoned_panics:
  assumes "ps_poisoned p"
  shows "fst (p_subscribe_exclusive E a cfg p) = Panic" "fst (p_client_new E bcfg ccfg a p) = Panic"
    "fst (p_lb_resolve E a cfg p) = Panic" "fst (p_handle_drop E (HandleExclusive a s) p) = Panic"
  using assms
  by (auto simp: p_subscribe_exclusive_def p_client_new_def p_lb_resolve_def p_handle_drop_def split: option.splits)

text \<open>Built configurations never panic.\<close>

lemma built_bind: "capacity_ok n \<Longrightarrow> bind_exclusive E n a w \<noteq> None"
  using msgs.create_channel_ok [of n] by (auto simp: bind_exclusive_eq split: prod.split sum.split)

lemma built_lb_factory:
  assumes "capacity_ok n"
  shows "lb_factory E n a w \<noteq> None"
proof -
  obtain c where "create_channel (d_msgs E) (unat n) = Some c" using msgs.create_channel_ok [OF assms] by blast
  moreover obtain d where "create_request_channel (d_reqs E) 1000 = Some d" using create_request_channel_new by blast
  ultimately show ?thesis by (simp add: lb_factory_eq)
qed

lemma built_get_or_register: "capacity_ok n \<Longrightarrow> get_existing_or_register E a (lb_factory E n a) w \<noteq> None"
  using built_lb_factory [of n a w]
  by (auto simp: get_existing_or_register_def split: sum.split lookup_result.split option.split)

lemma built_no_panic:
  assumes "\<not> ps_poisoned p"
  shows "built_subscriber cfg \<Longrightarrow> fst (p_subscribe_exclusive E a cfg p) \<noteq> Panic"
    "built_client ccfg \<Longrightarrow> fst (p_client_new E bcfg ccfg a p) \<noteq> Panic"
    "built_subscriber cfg \<Longrightarrow> fst (p_lb_resolve E a cfg p) \<noteq> Panic \<and> \<not> ps_poisoned (snd (p_lb_resolve E a cfg p))"
proof -
  assume "built_subscriber cfg"
  then have "bind_exclusive E (channel_capacity cfg) a (ps_world p) \<noteq> None"
    by (rule built_bind [OF built_subscriber_ok])
  then show "fst (p_subscribe_exclusive E a cfg p) \<noteq> Panic"
    using assms by (simp add: p_subscribe_exclusive_def Let_def split: option.split prod.split sum.split)
next
  assume "built_client ccfg"
  then have "bind_exclusive E (reply_channel_capacity ccfg) a (ps_world p) \<noteq> None"
    by (rule built_bind [OF built_client_ok])
  then show "fst (p_client_new E bcfg ccfg a p) \<noteq> Panic"
    using assms by (simp add: p_client_new_def Let_def split: option.split prod.split sum.split)
next
  assume "built_subscriber cfg"
  then have "get_existing_or_register E a (lb_factory E (channel_capacity cfg) a) (ps_world p) \<noteq> None"
    by (rule built_get_or_register [OF built_subscriber_ok])
  then show "fst (p_lb_resolve E a cfg p) \<noteq> Panic \<and> \<not> ps_poisoned (snd (p_lb_resolve E a cfg p))"
    using assms by (simp add: p_lb_resolve_def split: option.split prod.split sum.split register_result.split)
qed

lemma built_step_not_poisoned:
  assumes "process_step E True p p'" and "\<not> ps_poisoned p"
  shows "\<not> ps_poisoned p'"
  using assms
proof (induction rule: process_step.induct)
  case (ps_lb_resolve a cfg p q p')
  then show ?case using built_no_panic(3) [of p cfg a] by simp
qed (auto simp: p_subscribe_exclusive_def p_client_new_def p_lb_join_def p_handle_drop_def
      p_subscriber_drop_def p_group_drop_def p_dispatcher_step_def Let_def
      split: option.splits prod.splits sum.splits subscription_handle.splits if_splits)

lemma built_not_poisoned: "process_reachable E True p \<Longrightarrow> \<not> ps_poisoned p"
  by (induction rule: process_reachable.induct) (simp_all add: process_new_def built_step_not_poisoned)

text \<open>A receive loop on a channel without senders takes what is queued and ends.\<close>

lemma receive_loop_closed:
  assumes "sub_mode sub = Push ch" and "chans w ch = Some c" and "rx c" and "txs c = 0"
  shows "receive_loop E sub n w = Some (n + length (queue c))"
  using assms(2-4)
proof (induction "queue c" arbitrary: w c n)
  case Nil
  then have "receiver_recv (d_msgs E) c = Ready None" using msgs.mp_recv_end by (simp add: receiver_recv_def)
  then show ?case using Nil assms(1) by (simp add: receive_loop.simps [of E sub n w] recv_poll_def)
next
  case (Cons m ms)
  obtain c' where c': "receiver_recv (d_msgs E) c = Ready (Some (m, c'))" "queue c' = ms" "txs c' = txs c" "rx c'"
    using msgs.mp_recv_item [OF Cons.prems(2), of m ms] Cons.hyps(2) by (auto simp: receiver_recv_def)
  let ?w' = "w\<lparr>chans := (chans w)(ch \<mapsto> c')\<rparr>"
  have "receive_loop E sub n w = receive_loop E sub (n + 1) ?w'"
    using c'(1) Cons.prems(1) assms(1) by (simp add: receive_loop.simps [of E sub n w] recv_poll_def)
  also have "\<dots> = Some (n + 1 + length (queue c'))"
    by (rule Cons.hyps(1)) (use c' Cons.prems in simp_all)
  finally show ?case using c'(2) Cons.hyps(2) [symmetric] by simp
qed

text \<open>Every step of a dispatcher uses up requests or work at hand.\<close>

lemma dispatcher_step_measure:
  assumes k: "tasks w t = Some k" and d: "reqs w (task_req k) = Some d" "rrx d"
    and st: "dispatcher_step E alive t w = Some (l, w')"
  shows "\<exists>k'. tasks w' t = Some k' \<and> (task_pc k' = Finished \<and> 0 < pc_weight (task_pc k) \<or>
    task_req k' = task_req k \<and> (\<exists>d'. reqs w' (task_req k) = Some d' \<and> rrx d' \<and>
      4 * length (rqueue d') + pc_weight (task_pc k') < 4 * length (rqueue d) + pc_weight (task_pc k)))"
proof -
  have rq: "(\<exists>d'. w'' = w\<lparr>reqs := (reqs w)(task_req k \<mapsto> d')\<rparr> \<and> rrx d' \<and> length (rqueue d) = Suc (length (rqueue d')))"
    if "task_recv_request E k w = Ready (Some (tok, w''))" for tok w''
    using that d by (cases rule: requests.receiver_recv_cases [OF d(2)]) (auto simp: task_recv_request_def)
  have fin: "\<exists>k'. tasks (dispatcher_finish E alive t k v) t = Some k' \<and> task_pc k' = Finished" if "tasks v t = Some k" for v
    using that unregister_task [of "task_address k" "task_slot k" "mark_removed E (task_slot k) v" t]
    by (auto simp: dispatcher_finish_def Let_def frame_simps)
  show ?thesis
  proof (cases "task_pc k")
    case WaitRequest
    show ?thesis
    proof (cases "task_recv_request E k w")
      case (Ready x)
      show ?thesis
      proof (cases x)
        case None
        then show ?thesis using st k WaitRequest Ready fin [OF k] by (auto simp: dispatcher_step_def)
      next
        case (Some y)
        obtain tok w'' where y: "y = (tok, w'')" by fastforce
        then obtain d' where "w'' = w\<lparr>reqs := (reqs w)(task_req k \<mapsto> d')\<rparr>" "rrx d'"
            "length (rqueue d) = Suc (length (rqueue d'))"
          using rq Ready Some by blast
        then show ?thesis using st k WaitRequest Ready Some y by (auto simp: dispatcher_step_def frame_simps)
      qed
    qed (use st k WaitRequest in \<open>simp add: dispatcher_step_def\<close>)
  next
    case (WaitMessage tok)
    have r: "reqs v = reqs w \<and> tasks v = tasks w" if "task_recv_message E k w = Ready (Some (m, v))" for m v
      using that by (auto simp: task_recv_message_def split: option.splits poll.splits)
    show ?thesis
      using st k WaitMessage fin [of "oneshot_drop_tx E tok w"] d r
      by (auto simp: dispatcher_step_def frame_simps split: poll.splits option.splits)
  next
    case (Deliver tok m)
    have "reqs v = reqs w \<and> tasks v = tasks w" if "reply_send E tok m w = Inr v" for v
      using that by (auto simp: reply_send_def split: option.splits sum.splits)
    then show ?thesis using st k Deliver d by (auto simp: dispatcher_step_def frame_simps split: sum.splits)
  next
    case (WaitNext m)
    show ?thesis
    proof (cases "task_recv_request E k w")
      case (Ready x)
      show ?thesis
      proof (cases x)
        case None
        then show ?thesis using st k WaitNext Ready d by (auto simp: dispatcher_step_def frame_simps)
      next
        case (Some y)
        obtain tok w'' where y: "y = (tok, w'')" by fastforce
        then obtain d' where "w'' = w\<lparr>reqs := (reqs w)(task_req k \<mapsto> d')\<rparr>" "rrx d'"
            "length (rqueue d) = Suc (length (rqueue d'))"
          using rq Ready Some by blast
        then show ?thesis using st k WaitNext Ready Some y by (auto simp: dispatcher_step_def frame_simps)
      qed
    qed (use st k WaitNext in \<open>simp add: dispatcher_step_def\<close>)
  qed (use st k in \<open>simp_all add: dispatcher_step_def\<close>)
qed

lemma dispatcher_steps_bound:
  assumes "tasks w t = Some k" and "reqs w (task_req k) = Some d" and "rrx d"
    and "dispatcher_steps E alive t n w \<noteq> None"
  shows "n \<le> 4 * length (rqueue d) + pc_weight (task_pc k)"
  using assms
proof (induction n arbitrary: w k d)
  case (Suc n)
  then obtain l w' where st: "dispatcher_step E alive t w = Some (l, w')" "dispatcher_steps E alive t n w' \<noteq> None"
    by (auto split: option.splits)
  obtain k' where k': "tasks w' t = Some k'" and alt: "task_pc k' = Finished \<and> 0 < pc_weight (task_pc k) \<or>
      task_req k' = task_req k \<and> (\<exists>d'. reqs w' (task_req k) = Some d' \<and> rrx d' \<and>
        4 * length (rqueue d') + pc_weight (task_pc k') < 4 * length (rqueue d) + pc_weight (task_pc k))"
    using dispatcher_step_measure [OF Suc.prems(1-3) st(1)] by blast
  from alt show ?case
  proof
    assume f: "task_pc k' = Finished \<and> 0 < pc_weight (task_pc k)"
    then have "n = 0" using st(2) k' by (cases n) (auto simp: dispatcher_step_def)
    with f show ?case by simp
  next
    assume "task_req k' = task_req k \<and> (\<exists>d'. reqs w' (task_req k) = Some d' \<and> rrx d' \<and>
        4 * length (rqueue d') + pc_weight (task_pc k') < 4 * length (rqueue d) + pc_weight (task_pc k))"
    then obtain d' where d': "reqs w' (task_req k') = Some d'" "rrx d'"
        "4 * length (rqueue d') + pc_weight (task_pc k') < 4 * length (rqueue d) + pc_weight (task_pc k)" by auto
    from Suc.IH [OF k' d'(1,2) st(2)] d'(3) show ?case by simp
  qed
qed simp

end

section \<open>Properties\<close>

text \<open>
  C3. Exclusive addresses are owned by their handles. In every reachable process whose lock is not
  poisoned, an address or pattern is bound to an exclusive slot exactly while the handle for it and
  that slot lives, whatever steps led there; and there is at most one such handle.
\<close>

theorem exclusive_raii:
  assumes "env E queue cap txs rx rqueue rcap rtxs rrx cstate"
    and "process_reachable E built p" and "\<not> ps_poisoned p"
  shows "(routes E (ps_world p) a = Some (Single s) \<longleftrightarrow> HandleExclusive a s \<in> set (ps_handles p)) \<and>
    count_list (ps_handles p) (HandleExclusive a s) \<le> 1"
proof -
  note inv = env.process_reachable_inv [OF assms]
  have "count_list (ps_handles p) (HandleExclusive a s) \<le> 1"
    using owned_okD(2) [OF env.process_invD(4) [OF assms(1) inv]] by (rule count_exclusive) simp
  then show ?thesis
    using env.handle_route [OF assms(1) inv] env.route_exclusive [OF assms(1) inv] by metis
qed


text \<open>
  C11. Reference counts are exact. In every reachable process whose lock is not poisoned, the consumer
  count of a load-balanced group is the number of its live handles (modulo \<open>2 ^ 64\<close>), the count of
  its request sender is one for the group itself, while it exists, plus one per live subscriber, and
  the request channel has a sender exactly while that count is not zero.
\<close>

theorem group_counts_exact:
  assumes "env E queue cap txs rx rqueue rcap rtxs rrx cstate"
    and "process_reachable E built p" and "\<not> ps_poisoned p" and "b \<in> set (ps_groups p)"
  shows "consumer_count (gb_group b) (ps_world p) = of_nat (lb_handles (gb_group b) (ps_handles p)) \<and>
    grp_req_count (groups (ps_world p) (gb_group b)) =
      of_bool (gb_group b \<notin> set (ps_dropped p)) + pull_subs (gb_group b) (ps_subs p) \<and>
    (\<exists>d. reqs (ps_world p) (gb_req b) = Some d \<and>
      (rtxs d = 0 \<longleftrightarrow> gb_group b \<in> set (ps_dropped p) \<and> pull_subs (gb_group b) (ps_subs p) = 0))"
proof -
  have g: "env.group_ok txs rx rtxs rrx (ps_handles p) (ps_subs p) (ps_dropped p) (ps_world p) b"
    by (rule env.process_invD(7) [OF assms(1) env.process_reachable_inv [OF assms(1-3)] assms(4)])
  then obtain d where d: "reqs (ps_world p) (gb_req b) = Some d"
      "rtxs d = of_bool (grp_req_count (groups (ps_world p) (gb_group b)) \<noteq> 0)"
    by (auto simp: env.group_ok_def [OF assms(1)] env.group_task_ok_def [OF assms(1)])
  with g show ?thesis by (auto simp: env.group_ok_def [OF assms(1)] consumer_count_def)
qed


text \<open>
  C30. A dispatcher never spins. In every reachable process whose lock is not poisoned, a dispatcher that
  has not ended can take at most four steps per queued request, and four more, before it has to wait
  for somebody else.
\<close>

theorem dispatcher_never_spins:
  assumes "env E queue cap txs rx rqueue rcap rtxs rrx cstate"
    and "process_reachable E built p" and "\<not> ps_poisoned p"
    and "tasks (ps_world p) t = Some k" and "task_pc k \<noteq> Finished" and "task_pc k \<noteq> Aborted"
  shows "\<exists>d. reqs (ps_world p) (task_req k) = Some d \<and>
    (\<forall>n. dispatcher_steps E alive t n (ps_world p) \<noteq> None \<longrightarrow> n \<le> 4 * length (rqueue d) + 4)"
proof -
  note inv = env.process_reachable_inv [OF assms(1-3)]
  obtain d where d: "reqs (ps_world p) (task_req k) = Some d" "rrx d"
    using env.task_binding [OF assms(1) inv assms(4)] assms(5,6) by (metis task_active_def)
  have "pc_weight (task_pc k) \<le> 4" by (cases "task_pc k") simp_all
  then show ?thesis
    using env.dispatcher_steps_bound [OF assms(1,4) d] d(1) by (meson add_left_mono le_trans)
qed

text \<open>
  C13. Configurations made with the builders never panic: as long as callers pass only those, the lock is
  never poisoned, and every subscription and every new client returns a result.
\<close>

theorem built_never_panics:
  assumes "env E queue cap txs rx rqueue rcap rtxs rrx cstate" and "process_reachable E True p"
    and "built_subscriber cfg" and "built_client ccfg"
  shows "\<not> ps_poisoned p \<and> fst (p_subscribe_exclusive E a cfg p) \<noteq> Panic \<and>
    fst (p_lb_resolve E a cfg p) \<noteq> Panic \<and> fst (p_client_new E bcfg ccfg a p) \<noteq> Panic"
  using env.built_not_poisoned [OF assms(1,2)] env.built_no_panic [OF assms(1)] assms(3,4) by blast

text \<open>
  C12. A panic under the lock disables the registry for good. A load-balanced subscription to a free
  address with capacity 0, which the public fields of the configuration allow, panics while it holds the
  lock. From then on every subscription, every new client and every drop of an exclusive handle
  panics, whatever else the process does, and no route ever changes again.
\<close>

theorem zero_capacity_disables_registry:
  assumes "env E queue cap txs rx rqueue rcap rtxs rrx cstate"
    and "process_reachable E built p" and "\<not> ps_poisoned p" and "concrete a" and "\<not> has_route E a (ps_world p)"
    and "channel_capacity cfg = 0" and "(process_step E built')\<^sup>*\<^sup>* (snd (p_lb_resolve E a cfg p)) p'"
  shows "fst (p_lb_resolve E a cfg p) = Panic \<and> routes E (ps_world p') = routes E (ps_world p) \<and>
    fst (p_subscribe_exclusive E b cfg' p') = Panic \<and> fst (p_lb_resolve E b cfg' p') = Panic \<and>
    fst (p_client_new E bcfg ccfg b p') = Panic \<and> fst (p_handle_drop E (HandleExclusive b s) p') = Panic"
proof -
  note inv = env.process_reachable_inv [OF assms(1-3)]
  have "check_address_free (d_radix E) (inner (ps_world p)) a = Inr NotFound"
    using route_radix.check_free_concrete [OF env.axioms(4) [OF assms(1)] env.process_invD(2) [OF assms(1) inv] assms(4)] assms(5)
    by (simp add: has_route_def lookup_def)
  moreover have "create_channel (d_msgs E) (unat (channel_capacity cfg)) = None"
    using mpsc.mp_new_panic [OF env.axioms(1) [OF assms(1)], of 0] assms(6) by (simp add: create_channel_def)
  ultimately have p: "p_lb_resolve E a cfg p = (Panic, p\<lparr>ps_poisoned := True\<rparr>)"
    using assms(3) by (simp add: p_lb_resolve_def get_existing_or_register_def lb_factory_eq)
  then show ?thesis
    using env.poisoned_run [OF assms(1,7)] env.poisoned_panics [OF assms(1)] by simp
qed

section \<open>Witnesses\<close>

text \<open>
  Three runs: an exclusive subscription to \<open>a:b\<close>, the same after its handle is dropped, and a
  load-balanced subscription to \<open>a:b\<close>.
\<close>

type_synonym std_process = "((bytes \<times> route_target) list, message bounded_queue, nat bounded_queue, message os_state) process"

definition p_ab :: std_process where
  "p_ab = snd (p_subscribe_exclusive std_deps (ascii ''a:b'') subscriber_config_default (process_new std_deps))"


definition p_group :: std_process where
  "p_group = snd (p_lb_join (ascii ''a:b'') 3
     (snd (p_lb_resolve std_deps (ascii ''a:b'') lb_config (process_new std_deps))))"

definition sub_ab :: subscriber where
  "sub_ab = \<lparr>sub_mode = Push 0, sub_address = ascii ''a:b''\<rparr>"

lemmas process_eval = p_subscribe_exclusive_def p_lb_resolve_def p_lb_join_def p_handle_drop_def process_new_def
  binding_of_def target_load_balanced_group_def bind_exclusive_eq handle_drop_def lb_config_def
  subscriber_config_default_def config_consts Let_def

lemma p_ab_eval:
  "ps_poisoned p_ab = False" "ps_handles p_ab = [HandleExclusive (ascii ''a:b'') 1]" "ps_subs p_ab = [sub_ab]"
  "slot_sender (slots (ps_world p_ab) 1) = Some 0"
  "chans (ps_world p_ab) 0 = Some \<lparr>bq_items = [], bq_cap = 1024, bq_txs = 1, bq_rx = True\<rparr>"
  "ps_exclusive p_ab = [\<lparr>eb_address = ascii ''a:b'', eb_chan = 0, eb_slot = 1, eb_listener = None\<rparr>]"
  by (simp_all add: p_ab_def process_eval lb_eval registry_eval bq_ops_def MAX_PERMITS_def sub_ab_def bind_state_def)


lemma p_group_eval:
  "ps_poisoned p_group = False" "ps_handles p_group = [HandleLoadBalanced (ascii ''a:b'') 3]"
  "ps_groups p_group = [\<lparr>gb_address = ascii ''a:b'', gb_chan = 0, gb_slot = 1, gb_req = 2, gb_group = 3, gb_task = 4\<rparr>]"
  "ps_dropped p_group = []"
  "ps_subs p_group = [\<lparr>sub_mode = Pull 2 3, sub_address = ascii ''a:b''\<rparr>]"
  "tasks (ps_world p_group) 4 = Some lb_task"
  "reqs (ps_world p_group) 2 = Some \<lparr>bq_items = [], bq_cap = 1000, bq_txs = 1, bq_rx = True\<rparr>"
  by (simp_all add: p_group_def process_eval lb_eval registry_eval bq_ops_def MAX_PERMITS_def lb_task_def)

lemma process_new_reachable: "process_reachable std_deps built (process_new std_deps :: std_process)"
  by (rule pr_start)

lemma p_ab_reachable: "process_reachable std_deps True p_ab"
proof -
  have "is_utf8 (ascii ''a:b'')" by simp
  then show ?thesis unfolding p_ab_def
    using pr_step [OF process_new_reachable] ps_subscribe_exclusive built_default surjective_pairing by metis
qed


lemma p_group_reachable: "process_reachable std_deps True p_group"
proof -
  let ?p = "snd (p_lb_resolve std_deps (ascii ''a:b'') lb_config (process_new std_deps))"
  have u: "is_utf8 (ascii ''a:b'')" and c: "built_subscriber lb_config"
    by (simp, simp add: lb_config_def built_policy built_default)
  have r: "process_reachable std_deps True ?p"
    using pr_step [OF process_new_reachable] ps_lb_resolve u c surjective_pairing by metis
  have "(ascii ''a:b'', 3) \<in> set (ps_joining ?p)"
    by (simp add: process_eval lb_eval registry_eval bq_ops_def MAX_PERMITS_def)
  then show ?thesis unfolding p_group_def using pr_step [OF r] ps_lb_join surjective_pairing by metis
qed

theorem exclusive_raii_witness: "routes std_deps (ps_world p_ab) (ascii ''a:b'') = Some (Single 1)"
  using exclusive_raii [OF std.env_axioms p_ab_reachable, of "ascii ''a:b''" 1] by (simp add: p_ab_eval)


theorem group_counts_exact_witness:
  "consumer_count 3 (ps_world p_group) = 1 \<and> grp_req_count (groups (ps_world p_group) 3) = 2"
  using group_counts_exact [OF std.env_axioms p_group_reachable, of "hd (ps_groups p_group)"]
  by (simp add: p_group_eval lb_handles_def pull_subs_def)


theorem dispatcher_never_spins_witness: "dispatcher_steps std_deps True 4 5 (ps_world p_group) = None"
proof -
  have "\<not> (5 :: nat) \<le> 4" by simp
  then show ?thesis
    using dispatcher_never_spins [OF std.env_axioms p_group_reachable, of 4 lb_task True]
    by (fastforce simp: p_group_eval lb_task_def)
qed

theorem built_never_panics_witness:
  "fst (p_lb_resolve std_deps (ascii ''a:b'') lb_config p_ab) \<noteq> Panic"
  using built_never_panics [OF std.env_axioms p_ab_reachable built_policy [OF built_default] built_client_default]
  by (simp add: lb_config_def)

theorem zero_capacity_disables_registry_witness:
  "fst (p_handle_drop std_deps (HandleExclusive (ascii ''a:b'') 1)
     (snd (p_lb_resolve std_deps (ascii ''a:b'') (lb_config\<lparr>channel_capacity := 0\<rparr>) (process_new std_deps)))) = Panic"
proof -
  have "\<not> ps_poisoned (process_new std_deps)" "\<not> has_route std_deps (ascii ''a:b'') (ps_world (process_new std_deps))"
    by (simp_all add: process_new_def has_route_def lookup_def lookup_route_def registry_eval)
  then show ?thesis
    using zero_capacity_disables_registry [OF std.env_axioms process_new_reachable _ ab_concrete,
        of "lb_config\<lparr>channel_capacity := 0\<rparr>" True] by simp
qed

end
