(* ===== verification/Queues.thy ===== *)
theory Queues
  imports Process_Props
begin

text \<open>
  What any step of a process can do to the queue of an exclusive subscription. Sends append to it, its
  own subscriber takes from its head, and nothing else touches it: no task loses, duplicates or
  reorders what was accepted.
\<close>

section \<open>Queues between two states\<close>

definition appended ::
    "('c \<Rightarrow> message list) \<Rightarrow> nat \<Rightarrow> message list \<Rightarrow> ('t, 'c, 'd, 'o) world \<Rightarrow> ('t, 'c, 'd, 'o) world \<Rightarrow> bool" where
  "appended queue ch ms w w' \<longleftrightarrow>
     (\<forall>c. chans w ch = Some c \<longrightarrow> (\<exists>c'. chans w' ch = Some c' \<and> queue c' = queue c @ ms))"

lemma appended_same: "chans w' ch = chans w ch \<Longrightarrow> appended queue ch [] w w'"
  by (simp add: appended_def)

lemma appended_trans:
  "appended queue ch ms w w1 \<Longrightarrow> appended queue ch ms' w1 w2 \<Longrightarrow> appended queue ch (ms @ ms') w w2"
  unfolding appended_def by (metis append_assoc)

lemma appended_kept:
  "appended queue ch [] w w1 \<Longrightarrow> appended queue ch ms w1 w2 \<Longrightarrow> appended queue ch ms w w2"
  "appended queue ch ms w w1 \<Longrightarrow> appended queue ch [] w1 w2 \<Longrightarrow> appended queue ch ms w w2"
  using appended_trans [of queue ch "[]" w w1 ms w2] appended_trans [of queue ch ms w w1 "[]" w2] by simp_all

text \<open>At most one message was appended.\<close>

definition grown :: "('c \<Rightarrow> message list) \<Rightarrow> nat \<Rightarrow> ('t, 'c, 'd, 'o) world \<Rightarrow> ('t, 'c, 'd, 'o) world \<Rightarrow> bool" where
  "grown queue ch w w' \<longleftrightarrow> appended queue ch [] w w' \<or> (\<exists>m. appended queue ch [m] w w')"

lemma grown_same: "chans w' ch = chans w ch \<Longrightarrow> grown queue ch w w'"
  by (simp add: grown_def appended_same)

lemma grownI: "appended queue ch [] w w' \<Longrightarrow> grown queue ch w w'"
  by (simp add: grown_def)

lemma grown_kept:
  "appended queue ch [] w w1 \<Longrightarrow> grown queue ch w1 w2 \<Longrightarrow> grown queue ch w w2"
  "grown queue ch w w1 \<Longrightarrow> appended queue ch [] w1 w2 \<Longrightarrow> grown queue ch w w2"
  unfolding grown_def using appended_kept by blast+

context env
begin

section \<open>Sends\<close>

lemma grown_chan_send: "chan_send E ch' m w = Ready (Inr w') \<Longrightarrow> grown queue ch w w'"
proof -
  assume s: "chan_send E ch' m w = Ready (Inr w')"
  then obtain c where c: "chans w ch' = Some c" by (auto simp: chan_send_def split: option.splits)
  have "rx c" using s chan_send_gone [OF c] by force
  then show ?thesis
    by (cases rule: chan_send_cases [OF c, of m]) (use s c in \<open>auto simp: grown_def appended_def\<close>)
qed

lemma grown_endpoint_send: "endpoint_send E ep m w = Ready (Inr w') \<Longrightarrow> grown queue ch w w'"
  by (auto simp: endpoint_send_def target_send_def slot_send_def intro: grown_chan_send
      split: route_target.splits option.splits poll.splits sum.splits)

lemma grown_client_send: "client_send E m w = Ready (Inr w') \<Longrightarrow> grown queue ch w w'"
  by (auto simp: client_send_def transport_send_def intro: grown_endpoint_send split: option.splits sum.splits)

lemma grown_resume: "send_resume E ch' m w = Ready (Inr w') \<Longrightarrow> grown queue ch w w'"
  by (auto simp: send_resume_def intro: grown_chan_send split: poll.splits sum.splits)

lemma request_chans:
  "chans (request_end E rq w) = chans w"
  "register_waiter E r mid w = (q, w') \<Longrightarrow> chans w' = chans w"
  "chans (remove_waiter E r mid w) = chans w"
  by (auto simp: request_end_def remove_waiter_def register_waiter_def Let_def frame_simps fresh_def
      split: option.split if_splits)

lemma kept_request_await: "request_await E elapsed rq w = (q, w') \<Longrightarrow> appended queue ch [] w w'"
  by (auto simp: request_await_def request_chans appended_same split: option.splits poll.splits if_splits)

lemma grown_request_sent:
  assumes "request_sent E elapsed rq pc sent w = (q, w')" and "\<And>v. sent = Ready (Inr v) \<Longrightarrow> grown queue ch w v"
  shows "grown queue ch w w'"
  using assms
  by (auto simp: request_sent_def request_chans grown_same split: poll.splits sum.splits
      intro: grown_kept(2) dest: kept_request_await)

lemma grown_request_poll: "request_poll E (in_memory E) elapsed rq w = (q, w') \<Longrightarrow> grown queue ch w w'"
  by (auto simp: request_poll_def split: request_pc.splits
      intro: grown_request_sent grown_resume grownI dest: kept_request_await)

lemma grown_request_begin:
  assumes "request_begin E (in_memory E) elapsed r find_ep m w = (q, w')"
  shows "grown queue ch w w'"
proof -
  obtain q1 w1 where r: "register_waiter E r (message_id (header m)) w = (q1, w1)" by fastforce
  have "grown queue ch w1 w'"
    using assms r
    by (auto simp: request_begin_def Let_def request_chans grown_same split: sum.splits
        intro: grown_request_sent grown_endpoint_send)
  moreover have "appended queue ch [] w w1" by (rule appended_same) (simp add: request_chans(2) [OF r])
  ultimately show ?thesis using grown_kept(1) by blast
qed

section \<open>Removals keep queues\<close>

lemma kept_mark_removed: "appended queue ch [] w (mark_removed E s w)"
  using msgs.mp_drop_tx_eq(1)
  by (simp add: appended_def mark_removed_def drop_sender_def chan_drop_tx_def split: option.split)

lemma kept_shutdown: "appended queue ch [] w (group_shutdown E g w)"
proof -
  have "appended queue ch [] w (take_handle g w)" by (simp add: appended_same frame_simps)
  from appended_kept(1) [OF this kept_mark_removed] show ?thesis
    by (simp add: group_shutdown_def Let_def appended_def)
qed

lemma kept_unregister: "appended queue ch [] w (snd (unregister E a s w))"
proof -
  have "appended queue ch [] w (snd (remove_slot E t s w))" for t
    using kept_mark_removed kept_shutdown appended_same [of w ch w]
    by (simp add: remove_slot_def split: route_target.split)
  then show ?thesis
    by (simp add: unregister_def split_beta Let_def appended_same split: option.split) (simp add: appended_def)
qed

lemma kept_remove_consumer: "appended queue ch [] w (remove_consumer E g w)"
proof -
  have "appended queue ch [] (w\<lparr>groups := gs\<rparr>) (group_shutdown E g (w\<lparr>groups := gs\<rparr>))" for gs by (rule kept_shutdown)
  then show ?thesis by (simp add: remove_consumer_def Let_def appended_same) (simp add: appended_def)
qed

lemma kept_handle_drop: "appended queue ch [] w (handle_drop E h w)"
  by (simp add: handle_drop_def kept_unregister kept_remove_consumer split: subscription_handle.split)

section \<open>Creation keeps queues\<close>

lemma register_chans: "register E a t w = (q, w') \<Longrightarrow> chans w' = chans w"
  by (metis register_frame(1) snd_conv)

lemma kept_bind_exclusive:
  "bind_exclusive E n a w = Some (q, w') \<Longrightarrow> ch \<noteq> next_id w \<Longrightarrow> appended queue ch [] w w'"
  by (auto simp: bind_exclusive_eq bind_state_def slot_new_def chan_alloc_def fresh_def chan_drop_rx_def
      chan_drop_tx_def dest!: register_chans split: option.splits prod.splits sum.splits intro!: appended_same)

lemma kept_lb_factory:
  "get_existing_or_register E a (lb_factory E n a) w = Some (q, w') \<Longrightarrow> ch \<noteq> next_id w \<Longrightarrow> appended queue ch [] w w'"
  by (auto simp: get_existing_or_register_def lb_factory_eq lb_state_def Let_def
      split: option.splits prod.splits sum.splits lookup_result.splits intro!: appended_same)

section \<open>Receives\<close>

text \<open>A receive of one of the subscribers \<open>subs\<close> returned the message at the head of the queue.\<close>

definition taken :: "subscriber set \<Rightarrow> nat \<Rightarrow> ('t, 'c, 'd, 'o) world \<Rightarrow> ('t, 'c, 'd, 'o) world \<Rightarrow> bool" where
  "taken subs ch w w' \<longleftrightarrow> (\<exists>sub\<in>subs. \<exists>m c c'. sub_mode sub = Push ch \<and>
     chans w ch = Some c \<and> chans w' ch = Some c' \<and> queue c = m # queue c' \<and>
     ((\<exists>pc pc'. recv_poll E sub pc w = (Ready (Some m), pc', w')) \<or> subscriber_try_recv E sub w = (Inr m, w')))"

lemma recv_queue:
  assumes "sub \<in> subs" and "\<And>ch. sub_mode sub = Push ch \<Longrightarrow> receiver_ok rx ch w" and "recv_poll E sub pc w = (q, pc', w')"
  shows "appended queue ch [] w w' \<or> taken subs ch w w'"
proof (cases "sub_mode sub")
  case (Push ch')
  then obtain c where c: "chans w ch' = Some c" "rx c" using assms(2) by (auto simp: receiver_ok_def)
  show ?thesis
  proof (cases rule: msgs.receiver_recv_cases [OF c(2)])
    case (1 m c')
    then have w': "q = Ready (Some m)" "w' = w\<lparr>chans := (chans w)(ch' \<mapsto> c')\<rparr>"
      using assms(3) c(1) Push by (auto simp: recv_poll_def)
    show ?thesis
    proof (cases "ch' = ch")
      case True
      then have "taken subs ch w w'"
        unfolding taken_def using assms(1,3) Push c(1) 1 w' by force
      then show ?thesis ..
    qed (simp add: w' appended_same)
  qed (use assms(3) c(1) Push in \<open>auto simp: recv_poll_def appended_same\<close>)
next
  case (Pull r g)
  have cell: "cell_poll E tok v = (q, pc', w') \<Longrightarrow> w' = v" for tok v
    by (auto simp: cell_poll_def split: option.splits)
  have "chans w' = chans w"
    using assms(3) Pull
    by (auto simp: recv_poll_def fresh_def split: poll.splits option.splits recv_pc.splits sum.splits dest!: cell)
  then show ?thesis by (simp add: appended_same)
qed

lemma try_recv_queue:
  assumes "sub \<in> subs" and "\<And>ch. sub_mode sub = Push ch \<Longrightarrow> receiver_ok rx ch w" and "subscriber_try_recv E sub w = (q, w')"
  shows "appended queue ch [] w w' \<or> taken subs ch w w'"
proof (cases "sub_mode sub")
  case (Push ch')
  then obtain c where c: "chans w ch' = Some c" "rx c" using assms(2) by (auto simp: receiver_ok_def)
  show ?thesis
  proof (cases rule: msgs.receiver_try_recv_cases [OF c(2)])
    case (1 m c')
    then have w': "q = Inr m" "w' = w\<lparr>chans := (chans w)(ch' \<mapsto> c')\<rparr>"
      using assms(3) c(1) Push by (auto simp: subscriber_try_recv_def)
    show ?thesis
    proof (cases "ch' = ch")
      case True
      then have "taken subs ch w w'"
        unfolding taken_def using assms(1,3) Push c(1) 1 w' by force
      then show ?thesis ..
    qed (simp add: w' appended_same)
  qed (use assms(3) c(1) Push in \<open>auto simp: subscriber_try_recv_def appended_same\<close>)
qed (use assms(3) in \<open>simp add: subscriber_try_recv_def appended_same\<close>)

text \<open>Conversely, a receive that returns a message has taken it from the head.\<close>

lemma recv_takes:
  assumes "sub_mode sub = Push ch" and "chans w ch = Some c" and "rx c"
  shows "recv_poll E sub pc w = (Ready (Some m), pc', w') \<Longrightarrow> \<exists>c'. chans w' ch = Some c' \<and> queue c = m # queue c'"
    "subscriber_try_recv E sub w = (Inr m, w') \<Longrightarrow> \<exists>c'. chans w' ch = Some c' \<and> queue c = m # queue c'"
proof -
  assume "recv_poll E sub pc w = (Ready (Some m), pc', w')"
  then show "\<exists>c'. chans w' ch = Some c' \<and> queue c = m # queue c'"
    by (cases rule: msgs.receiver_recv_cases [OF assms(3)]) (use assms in \<open>auto simp: recv_poll_def\<close>)
next
  assume "subscriber_try_recv E sub w = (Inr m, w')"
  then show "\<exists>c'. chans w' ch = Some c' \<and> queue c = m # queue c'"
    by (cases rule: msgs.receiver_try_recv_cases [OF assms(3)]) (use assms in \<open>auto simp: subscriber_try_recv_def\<close>)
qed

section \<open>Steps\<close>

text \<open>No listener and no dispatcher reads the channel of a subscriber.\<close>

lemma listener_elsewhere:
  assumes "process_inv p" and "e \<in> set (ps_exclusive p)" and "eb_listener e = None"
    and "rd_pc (dispatchers (ps_world p) r) \<noteq> ListenerEnded"
  shows "rd_chan (dispatchers (ps_world p) r) \<noteq> eb_chan e"
  using listener_binding [OF assms(1,4)] eb_chan_inj [OF process_invD(3) [OF assms(1)] _ assms(2)] assms(3)
  by (metis option.distinct(1))

lemma task_elsewhere:
  assumes "process_inv p" and "e \<in> set (ps_exclusive p)" and "tasks (ps_world p) t = Some k"
  shows "task_main k \<noteq> eb_chan e"
  using task_binding [OF assms(1,3)] eb_gb_disjoint [OF process_invD(3) [OF assms(1)] assms(2)]
  by (metis eb_ids_simps(1) gb_ids_simps(1))

lemma kept_drop_receivers: "task_main k \<noteq> ch \<Longrightarrow> appended queue ch [] w (set_pc t pc (drop_receivers E k w))"
  by (simp add: appended_same frame_simps)

lemma kept_finish:
  assumes "task_main k \<noteq> ch"
  shows "appended queue ch [] w (dispatcher_finish E alive t k w)"
proof -
  let ?w1 = "mark_removed E (task_slot k) w"
  have "appended queue ch [] ?w1 (if alive then snd (unregister E (task_address k) (task_slot k) ?w1) else ?w1)"
    by (simp add: kept_unregister appended_same)
  from appended_kept(1) [OF kept_mark_removed this] show ?thesis
    using appended_kept(1) [OF _ kept_drop_receivers [OF assms]] by (simp add: dispatcher_finish_def Let_def)
qed

lemma task_recv_chans:
  "task_recv_request E k w = Ready (Some (tok, w')) \<Longrightarrow> chans w' = chans w"
  "task_recv_message E k w = Ready (Some (m, w')) \<Longrightarrow> ch \<noteq> task_main k \<Longrightarrow> chans w' ch = chans w ch"
  "reply_send E tok m w = Inr w' \<Longrightarrow> chans w' = chans w"
  by (auto simp: task_recv_request_def task_recv_message_def reply_send_def
      split: option.splits poll.splits sum.splits)

lemma kept_dispatcher_step:
  assumes st: "dispatcher_step E alive t w = Some (l, w')" and "\<And>k. tasks w t = Some k \<Longrightarrow> task_main k \<noteq> ch"
  shows "appended queue ch [] w w'"
proof -
  obtain k where k: "tasks w t = Some k" "task_main k \<noteq> ch"
    using st assms(2) by (auto simp: dispatcher_step_def split: option.splits)
  have fin: "appended queue ch [] w (dispatcher_finish E alive t k (oneshot_drop_tx E tok w))" for tok
    using appended_kept(1) [OF appended_same kept_finish [OF k(2)]] by (simp add: frame_simps)
  show ?thesis
    using st k fin kept_finish [OF k(2)]
    by (cases "task_pc k")
      (auto simp: dispatcher_step_def frame_simps task_recv_chans appended_same
        split: poll.splits option.splits sum.splits)
qed

lemma kept_listener_step:
  assumes "listener_step E r w = Some w'" and "rd_pc (dispatchers w r) \<noteq> ListenerEnded \<Longrightarrow> rd_chan (dispatchers w r) \<noteq> ch"
  shows "appended queue ch [] w w'"
proof (rule appended_same)
  have "chans (dispatch_reply E r m w) = chans w" for m
    by (auto simp: dispatch_reply_def Let_def frame_simps dest: task_recv_chans(3) split: option.split sum.split)
  then show "chans w' ch = chans w ch"
    using assms
    by (auto simp: listener_step_def frame_simps chan_drop_rx_def split: listener_pc.splits option.splits poll.splits)
qed

lemma kept_aborts:
  "listener_abort E r w = Some w' \<Longrightarrow> (rd_pc (dispatchers w r) \<noteq> ListenerEnded \<Longrightarrow> rd_chan (dispatchers w r) \<noteq> ch) \<Longrightarrow>
   appended queue ch [] w w'"
  "dispatcher_abort E t w = Some w' \<Longrightarrow> (\<And>k. tasks w t = Some k \<Longrightarrow> task_main k \<noteq> ch) \<Longrightarrow>
   appended queue ch [] w w'"
  by (auto simp: listener_abort_def dispatcher_abort_def frame_simps chan_drop_rx_def intro!: appended_same
      split: if_splits option.splits dispatcher_pc.splits)

lemma task_step_queue:
  assumes inv: "process_inv p" and e: "e \<in> set (ps_exclusive p)" "eb_listener e = None"
    and st: "task_step E (set (ps_subs p)) (ps_world p) w'"
  shows "grown queue (eb_chan e) (ps_world p) w' \<or> taken (set (ps_subs p)) (eb_chan e) (ps_world p) w'"
  using st
proof (cases rule: task_step.cases)
  case (ts_recv sub pc q pc')
  then show ?thesis using recv_queue push_receiver [OF inv] grownI by metis
next
  case (ts_try_recv sub q)
  then show ?thesis using try_recv_queue push_receiver [OF inv] grownI by metis
next
  case (ts_listener r)
  then show ?thesis using kept_listener_step listener_elsewhere [OF inv e] grownI by metis
next
  case (ts_listener_abort r)
  then show ?thesis using kept_aborts(1) listener_elsewhere [OF inv e] grownI by metis
next
  case (ts_dispatcher_abort t)
  then show ?thesis using kept_aborts(2) task_elsewhere [OF inv e(1)] grownI by metis
next
  case (ts_replies_drop r)
  then show ?thesis by (simp add: reply_dispatcher_drop_def frame_simps grown_same)
qed (simp_all add: grown_client_send grown_endpoint_send grown_resume grown_request_begin grown_request_poll
    request_chans frame_simps grown_same)

lemma process_step_queue:
  assumes inv: "process_inv p" and np: "\<not> ps_poisoned p" and e: "e \<in> set (ps_exclusive p)" "eb_listener e = None"
    and st: "process_step E built p p'" and sub: "sub \<in> set (ps_subs p')" "sub_mode sub = Push (eb_chan e)"
  shows "grown queue (eb_chan e) (ps_world p) (ps_world p') \<or>
    taken (set (ps_subs p)) (eb_chan e) (ps_world p) (ps_world p')"
proof -
  have n: "eb_chan e \<noteq> next_id (ps_world p)"
    using process_invD(3) [OF inv] e(1) eb_ids_simps(1) [of e] by (force simp: ids_ok_def binding_ids_def)
  show ?thesis
    using st
  proof (cases rule: process_step.cases)
    case (ps_task w')
    then show ?thesis using task_step_queue [OF inv e] by simp
  next
    case (ps_dispatcher t l)
    then obtain w' where "dispatcher_step E (\<not> ps_poisoned p) t (ps_world p) = Some (l, w')" "ps_world p' = w'"
      by (auto simp: p_dispatcher_step_def)
    then show ?thesis using kept_dispatcher_step task_elsewhere [OF inv e(1)] grownI by metis
  next
    case (ps_subscribe_exclusive a cfg q)
    then show ?thesis
      by (auto simp: p_subscribe_exclusive_def Let_def grown_same split: option.splits prod.splits sum.splits if_splits
          intro: grownI [OF kept_bind_exclusive [OF _ n]] grownI)
  next
    case (ps_client_new a cfg bcfg q)
    have "appended queue (eb_chan e) [] (ps_world p) (snd (reply_dispatcher_new ch w1))"
      if "bind_exclusive E n a (ps_world p) = Some (q, w1)" for n a q ch w1
      using kept_bind_exclusive [OF that n] by (simp add: appended_def reply_dispatcher_new_def fresh_def)
    then show ?thesis
      using ps_client_new(3)
      by (force simp: p_client_new_def Let_def split_beta grown_same split: option.splits sum.splits if_splits
          intro: grownI [OF kept_bind_exclusive [OF _ n]] grownI)
  next
    case (ps_lb_resolve a cfg q)
    then show ?thesis
      by (auto simp: p_lb_resolve_def grown_same split: option.splits prod.splits sum.splits if_splits register_result.splits
          intro: grownI [OF kept_lb_factory [OF _ n]])
  next
    case (ps_lb_join a g q)
    then show ?thesis by (auto simp: p_lb_join_def group_subscribe_def Let_def grown_same)
  next
    case (ps_handle_drop h q)
    then show ?thesis
      using np by (auto simp: p_handle_drop_def Let_def grownI [OF kept_handle_drop] split: subscription_handle.splits)
  next
    case (ps_subscriber_drop sub')
    have "eb_chan e \<in> set (push_chans (remove1 sub' (ps_subs p)))"
      using sub ps_subscriber_drop(1) set_push_chans by (fastforce simp: p_subscriber_drop_def)
    then have "sub_mode sub' \<noteq> Push (eb_chan e)"
      using push_chans_remove1 [OF ps_subscriber_drop(2) owned_okD(4) [OF process_invD(4) [OF inv]]] set_push_of by blast
    then show ?thesis
      using ps_subscriber_drop(1)
      by (auto simp: p_subscriber_drop_def subscriber_drop_def chan_drop_rx_def frame_simps grown_same
          split: subscriber_mode.splits)
  next
    case (ps_group_drop b)
    let ?w1 = "group_shutdown E (gb_group b) (ps_world p)"
    have "grown queue (eb_chan e) (ps_world p) (req_sender_release E (gb_group b) ?w1)"
      using grown_kept(1) [OF kept_shutdown grown_same] by (simp add: frame_simps)
    then show ?thesis using ps_group_drop(1) by (simp add: p_group_drop_def group_drop_def)
  qed
qed

end

section \<open>Properties\<close>

text \<open>
  C2. Nothing accepted is lost. In every reachable process whose lock is not poisoned, while a subscriber
  of an exclusive subscription lives, any step of any task leaves its queue as it was, appends one
  message to it, or is a receive on that queue which returns exactly the message at its head; and every
  receive that returns a message removes it from the head. So what has been received, followed by
  what is queued, is what was accepted, in that order.
\<close>

theorem exclusive_queue_discipline:
  assumes "env E queue cap txs rx rqueue rcap rtxs rrx cstate"
    and "process_reachable E built p" and "\<not> ps_poisoned p" and "process_step E built p p'"
    and "sub \<in> set (ps_subs p)" and "sub \<in> set (ps_subs p')" and "sub_mode sub = Push ch"
    and "chans (ps_world p) ch = Some c"
  shows "(\<exists>c'. chans (ps_world p') ch = Some c' \<and>
    (queue c' = queue c \<or> (\<exists>m. queue c' = queue c @ [m]) \<or>
     (\<exists>m sub'. queue c = m # queue c' \<and> sub' \<in> set (ps_subs p) \<and> sub_mode sub' = Push ch \<and>
       ((\<exists>pc pc'. recv_poll E sub' pc (ps_world p) = (Ready (Some m), pc', ps_world p')) \<or>
        subscriber_try_recv E sub' (ps_world p) = (Inr m, ps_world p'))))) \<and>
    (\<forall>m pc pc' w'. recv_poll E sub pc (ps_world p) = (Ready (Some m), pc', w') \<or>
       subscriber_try_recv E sub (ps_world p) = (Inr m, w') \<longrightarrow>
       (\<exists>c'. chans w' ch = Some c' \<and> queue c = m # queue c'))"
proof -
  note inv = env.process_reachable_inv [OF assms(1-3)]
  have "ch \<in> set (push_chans (ps_subs p))" using assms(5,7) set_push_chans by blast
  then obtain e where e: "e \<in> set (ps_exclusive p)" "eb_listener e = None" "eb_chan e = ch"
    using owned_okD(5) [OF env.process_invD(4) [OF assms(1) inv]] by blast
  from env.process_step_queue [OF assms(1) inv assms(3) e(1,2) assms(4,6)] e(3) assms(7)
  have "grown queue ch (ps_world p) (ps_world p') \<or> env.taken E queue (set (ps_subs p)) ch (ps_world p) (ps_world p')"
    by simp
  then have step: "\<exists>c'. chans (ps_world p') ch = Some c' \<and>
    (queue c' = queue c \<or> (\<exists>m. queue c' = queue c @ [m]) \<or>
     (\<exists>m sub'. queue c = m # queue c' \<and> sub' \<in> set (ps_subs p) \<and> sub_mode sub' = Push ch \<and>
       ((\<exists>pc pc'. recv_poll E sub' pc (ps_world p) = (Ready (Some m), pc', ps_world p')) \<or>
        subscriber_try_recv E sub' (ps_world p) = (Inr m, ps_world p'))))"
    using assms(8) by (auto simp: grown_def appended_def env.taken_def [OF assms(1)])
  have "rx c" using env.push_receiver [OF assms(1) inv assms(5,7)] assms(8) by (auto simp: receiver_ok_def)
  with step show ?thesis using env.recv_takes [OF assms(1,7,8)] by blast
qed

section \<open>Witness\<close>

theorem exclusive_queue_discipline_witness:
  "\<exists>w' c'. client_send std_deps ab_message (ps_world p_ab) = Ready (Inr w') \<and> chans w' 0 = Some c' \<and>
     (bq_items c' = [] \<or> (\<exists>m. bq_items c' = [m]))"
proof -
  have "lookup std_deps (ascii ''a:b'') (ps_world p_ab) = Some (Single 1)"
    by (simp add: p_ab_def process_eval lb_eval registry_eval bq_ops_def MAX_PERMITS_def bind_state_def
        lookup_def lookup_route_def)
  then obtain w' where s: "client_send std_deps ab_message (ps_world p_ab) = Ready (Inr w')"
    by (cases rule: std.chan_send_cases [OF p_ab_eval(5), of ab_message])
      (auto simp: client_send_def transport_send_def resolve_def endpoint_send_def endpoint_new_def from_utf8_def
        target_send_def slot_send_def p_ab_eval [unfolded One_nat_def])
  have "process_step std_deps True p_ab (p_ab\<lparr>ps_world := w'\<rparr>)" by (rule ps_task [OF ts_send [OF s]])
  from exclusive_queue_discipline [OF std.env_axioms p_ab_reachable _ this, of sub_ab 0] s
  show ?thesis by (fastforce simp: p_ab_eval sub_ab_def)
qed

end
