(* ===== verification/Tests.thy ===== *)
theory Tests
  imports Client "HOL-Library.Monad_Syntax"
begin

text \<open>
  The unit tests of the repository, translated and evaluated on the model: \<open>registry/mod.rs\<close> and
  \<open>client/mod.rs\<close> with the helpers of \<open>test_utils.rs\<close>. A test is \<open>Some ()\<close> when it passes; a failed
  assertion, \<^verbatim>\<open>unwrap\<close> of an error, or an \<^verbatim>\<open>await\<close> that does not complete is \<open>None\<close>.
\<close>

section \<open>Assertions\<close>

definition assert :: "bool \<Rightarrow> unit option" where
  "assert b = (if b then Some () else None)"

definition unwrap :: "'e + 'a \<Rightarrow> 'a option" where
  "unwrap r = (case r of Inl _ \<Rightarrow> None | Inr x \<Rightarrow> Some x)"

definition is_ok :: "'e + 'a \<Rightarrow> bool" where
  "is_ok r = (case r of Inl _ \<Rightarrow> False | Inr _ \<Rightarrow> True)"

definition await :: "'a poll \<Rightarrow> 'a option" where
  "await q = (case q of Pending \<Rightarrow> None | Ready x \<Rightarrow> Some x)"

lemmas assertion_defs = assert_def unwrap_def is_ok_def await_def

section \<open>Patterns\<close>

definition matches :: "bytes \<Rightarrow> bytes \<Rightarrow> registry_error + bool" where
  "matches pat addr = (case validate_wildcard_pattern (from_utf8_lossy pat) of
     Inl e \<Rightarrow> Inl e
   | Inr _ \<Rightarrow> Inr (compare_segments_bytes pat addr False))"

definition patterns_conflict_bytes :: "bytes \<Rightarrow> bytes \<Rightarrow> registry_error + bool" where
  "patterns_conflict_bytes pat1 pat2 = (case validate_wildcard_pattern (from_utf8_lossy pat1) of
     Inl e \<Rightarrow> Inl e
   | Inr _ \<Rightarrow> (case validate_wildcard_pattern (from_utf8_lossy pat2) of
       Inl e \<Rightarrow> Inl e
     | Inr _ \<Rightarrow> Inr (compare_segments_bytes pat1 pat2 True)))"

text \<open>\<^verbatim>\<open>assert!(matches(p, a).unwrap())\<close>, its negation, and \<^verbatim>\<open>assert!(matches(p, a).is_err())\<close>.\<close>

definition matching :: "string \<Rightarrow> string \<Rightarrow> bool" where
  "matching p a \<longleftrightarrow> matches (ascii p) (ascii a) = Inr True"

definition not_matching :: "string \<Rightarrow> string \<Rightarrow> bool" where
  "not_matching p a \<longleftrightarrow> matches (ascii p) (ascii a) = Inr False"

definition rejecting :: "string \<Rightarrow> string \<Rightarrow> bool" where
  "rejecting p a \<longleftrightarrow> \<not> is_ok (matches (ascii p) (ascii a))"

definition exact_match :: bool where
  "exact_match \<longleftrightarrow> matching ''arcella'' ''arcella'' \<and> matching ''arcella:core:users'' ''arcella:core:users'' \<and>
     not_matching ''arcella:core:users'' ''arcella:core:admin'' \<and> not_matching ''Arcella'' ''arcella''"

definition length_mismatch :: bool where
  "length_mismatch \<longleftrightarrow> not_matching ''a:b:c'' ''a:b'' \<and> not_matching ''a:b'' ''a:b:c''"

definition empty_strings :: bool where
  "empty_strings \<longleftrightarrow> rejecting '''' '''' \<and> rejecting ''a::b'' ''a:b'' \<and> rejecting '''' ''a:b'' \<and>
     not_matching ''a:b'' '''' \<and> not_matching ''a'' '''' \<and> not_matching ''a:b'' ''a::b''"

definition single_segment_wildcard :: bool where
  "single_segment_wildcard \<longleftrightarrow> matching ''a:*:c'' ''a:b:c'' \<and> matching ''a:b:*'' ''a:b:c'' \<and>
     rejecting ''*'' ''a'' \<and> rejecting ''*:b:c'' ''a:b:c'' \<and> rejecting ''*:*:*'' ''a:b:c'' \<and>
     not_matching ''a:*:d'' ''a:b:c'' \<and> not_matching ''a:*:d'' ''a:b:c:d'' \<and> not_matching ''a:*:d'' ''a:d''"

definition multi_segment_wildcard :: bool where
  "multi_segment_wildcard \<longleftrightarrow> matching ''a:**'' ''a'' \<and> matching ''a:b:**'' ''a:b'' \<and> matching ''a:b:**'' ''a:b:c'' \<and>
     matching ''a:b:**'' ''a:b:c:d:e'' \<and> matching ''a:**'' ''a:b:c:d:e'' \<and> rejecting ''**'' ''a'' \<and> rejecting ''**'' ''a:b:c:d'' \<and>
     not_matching ''a:b:**'' ''a'' \<and> not_matching ''a:b:**'' ''x:b:c''"

definition star_and_starstar_combined :: bool where
  "star_and_starstar_combined \<longleftrightarrow> matching ''a:*:c:**'' ''a:b:c:d:e'' \<and> rejecting ''*:b:**'' ''a:b:c:d:e'' \<and>
     rejecting ''*:**'' ''x:y:z'' \<and> patterns_conflict_bytes (ascii ''a:b:c:*'') (ascii ''a:**'') = Inr True"

definition invalid_patterns :: bool where
  "invalid_patterns \<longleftrightarrow> rejecting ''a:**:b'' ''a:b'' \<and> rejecting ''a:*:b:'' ''a:b'' \<and> rejecting ''**:a:**'' ''a:b'' \<and>
     rejecting ''a:**:**'' ''a:b''"

section \<open>The registry\<close>

definition create_dummy_sender ::
    "('t, 'c, 'd, 'o) deps \<Rightarrow> ('t, 'c, 'd, 'o) world \<Rightarrow> (nat \<times> ('t, 'c, 'd, 'o) world) option" where
  "create_dummy_sender E w = do {
     c \<leftarrow> create_channel (d_msgs E) 10;
     let (tx, w1) = chan_alloc c w;
     Some (tx, chan_drop_rx E tx w1)
   }"

text \<open>\<^verbatim>\<open>SubscriptionSlot::new(create_dummy_sender())\<close>, and the factory that returns a target for it.\<close>

definition dummy_slot ::
    "('t, 'c, 'd, 'o) deps \<Rightarrow> ('t, 'c, 'd, 'o) world \<Rightarrow> (nat \<times> ('t, 'c, 'd, 'o) world) option" where
  "dummy_slot E w = do {
     (tx, w1) \<leftarrow> create_dummy_sender E w;
     Some (slot_new tx w1)
   }"

definition dummy_factory ::
    "('t, 'c, 'd, 'o) deps \<Rightarrow> ('t, 'c, 'd, 'o) world \<Rightarrow>
     ((registry_error + route_target) \<times> ('t, 'c, 'd, 'o) world) option" where
  "dummy_factory E w = do {
     (s, w1) \<leftarrow> dummy_slot E w;
     Some (Inr (new_exclusive s), w1)
   }"

text \<open>A second \<^verbatim>\<open>LocalRegistry::new()\<close>; the tests that create one do not use the first again.\<close>

definition second_registry :: "('t, 'c, 'd, 'o) deps \<Rightarrow> ('t, 'c, 'd, 'o) world \<Rightarrow> ('t, 'c, 'd, 'o) world" where
  "second_registry E w = w\<lparr>inner := registry_new (d_radix E)\<rparr>"

definition test_register_lookup_and_unregister :: "('t, 'c, 'd, 'o) deps \<Rightarrow> unit option" where
  "test_register_lookup_and_unregister E = do {
     let addr = ascii ''arcella:core:users'';
     (slot, w) \<leftarrow> dummy_slot E (world_new E);
     let (r, w) = register E addr (new_exclusive slot) w;
     assert (is_ok r);
     assert (lookup E addr w \<noteq> None);
     assert (has_route E addr w);
     assert (has_local E addr w);
     let (r, w) = unregister E addr slot w;
     assert (is_ok r);
     assert (lookup E addr w = None);
     assert (\<not> has_route E addr w)
   }"

fun is_wildcard_conflict :: "registry_error + unit \<Rightarrow> bool" where
  "is_wildcard_conflict (Inl (WildcardConflict _ _)) = True"
| "is_wildcard_conflict _ = False"

fun is_conflicts_with_wildcard :: "registry_error + unit \<Rightarrow> bool" where
  "is_conflicts_with_wildcard (Inl (ConflictsWithWildcard _ _)) = True"
| "is_conflicts_with_wildcard _ = False"

definition test_conflict_exact_vs_wildcard :: "('t, 'c, 'd, 'o) deps \<Rightarrow> unit option" where
  "test_conflict_exact_vs_wildcard E = do {
     let exact_addr = ascii ''arcella:core:users'';
     let wildcard_addr = ascii ''arcella:core:*'';
     (slot, w) \<leftarrow> dummy_slot E (world_new E);
     let (r, w) = register E exact_addr (new_exclusive slot) w;
     unwrap r;
     (slot, w) \<leftarrow> dummy_slot E w;
     let (r, w) = register E wildcard_addr (new_exclusive slot) w;
     assert (is_wildcard_conflict r);
     let w = second_registry E w;
     (slot, w) \<leftarrow> dummy_slot E w;
     let (r, w) = register E wildcard_addr (new_exclusive slot) w;
     unwrap r;
     (slot, w) \<leftarrow> dummy_slot E w;
     let (r, w) = register E exact_addr (new_exclusive slot) w;
     assert (is_conflicts_with_wildcard r)
   }"

definition test_lookup_priority_exact_over_wildcard :: "('t, 'c, 'd, 'o) deps \<Rightarrow> unit option" where
  "test_lookup_priority_exact_over_wildcard E = do {
     let exact_addr = ascii ''arcella:core:users'';
     let wildcard_addr = ascii ''arcella:core:*'';
     (slot, w) \<leftarrow> dummy_slot E (world_new E);
     let target1 = new_exclusive slot;
     (slot, w) \<leftarrow> dummy_slot E w;
     let target2 = new_exclusive slot;
     let (r, w) = register E wildcard_addr target1 w;
     unwrap r;
     let (r, w) = register E exact_addr target2 w;
     assert (is_conflicts_with_wildcard r);
     let w = second_registry E w;
     let (r, w) = register E exact_addr target2 w;
     unwrap r;
     let (r, w) = register E wildcard_addr target1 w;
     assert (is_wildcard_conflict r)
   }"

text \<open>
  A call of the factory allocates a channel and a slot, so the identifiers in use count its calls.
\<close>

definition factory_calls :: "('t, 'c, 'd, 'o) world \<Rightarrow> nat" where
  "factory_calls w = next_id w div 2"

fun is_registered :: "registry_error + register_result \<Rightarrow> bool" where
  "is_registered (Inr (Registered _)) = True"
| "is_registered _ = False"

fun is_already_exists :: "registry_error + register_result \<Rightarrow> bool" where
  "is_already_exists (Inr (AlreadyExists _)) = True"
| "is_already_exists _ = False"

definition test_get_existing_or_register_atomic :: "('t, 'c, 'd, 'o) deps \<Rightarrow> unit option" where
  "test_get_existing_or_register_atomic E = do {
     let addr = ascii ''arcella:lb:group'';
     (r, w) \<leftarrow> get_existing_or_register E addr (dummy_factory E) (world_new E);
     assert (is_registered r);
     assert (factory_calls w = 1);
     (r, w) \<leftarrow> get_existing_or_register E addr (dummy_factory E) w;
     assert (is_already_exists r);
     assert (factory_calls w = 1)
   }"

definition test_unregister_with_wrong_slot_is_noop :: "('t, 'c, 'd, 'o) deps \<Rightarrow> unit option" where
  "test_unregister_with_wrong_slot_is_noop E = do {
     let addr = ascii ''arcella:test'';
     (slot1, w) \<leftarrow> dummy_slot E (world_new E);
     let target1 = new_exclusive slot1;
     (slot2, w) \<leftarrow> dummy_slot E w;
     let (r, w) = register E addr target1 w;
     unwrap r;
     let (r, w) = unregister E addr slot2 w;
     assert (is_ok r);
     assert (lookup E addr w \<noteq> None);
     assert (lookup E addr w = Some target1)
   }"

text \<open>
  Concurrent calls of \<open>get_existing_or_register\<close> on one address: the lock puts them in some order,
  and each brings its own factory.
\<close>

fun race ::
    "('t, 'c, 'd, 'o) deps \<Rightarrow> bytes \<Rightarrow>
     (('t, 'c, 'd, 'o) world \<Rightarrow> ((registry_error + route_target) \<times> ('t, 'c, 'd, 'o) world) option) list \<Rightarrow>
     ('t, 'c, 'd, 'o) world \<Rightarrow>
     ((registry_error + register_result) list \<times> ('t, 'c, 'd, 'o) world) option" where
  "race E addr [] w = Some ([], w)"
| "race E addr (factory # factories) w = do {
     (r, w1) \<leftarrow> get_existing_or_register E addr factory w;
     (rs, w2) \<leftarrow> race E addr factories w1;
     Some (r # rs, w2)
   }"

definition test_get_existing_or_register_concurrent_race :: "('t, 'c, 'd, 'o) deps \<Rightarrow> unit option" where
  "test_get_existing_or_register_concurrent_race E = do {
     let addr = ascii ''arcella:lb:race_test'';
     (results, w) \<leftarrow> race E addr (replicate 100 (dummy_factory E)) (world_new E);
     assert (factory_calls w = 1);
     assert (length (filter is_registered results) = 1);
     assert (length (filter is_already_exists results) = 99);
     assert (list_all is_ok results)
   }"

section \<open>The registry tests pass\<close>

text \<open>Equations that evaluate once what the definitions mention twice.\<close>

lemma split_on_eval:
  "split_on c (x # xs) = (if x = c then [] # split_on c xs else case split_on c xs of s # ss \<Rightarrow> (x # s) # ss)"
  by (cases "split_on c xs") simp_all

lemma matches_eq:
  "is_utf8 p \<Longrightarrow> is_ok (matches p a) \<longleftrightarrow> pattern_spec p"
  "is_utf8 p \<Longrightarrow> matches p a = Inr b \<longleftrightarrow> pattern_spec p \<and> compare_segments_bytes p a False = b"
  by (auto simp: matches_def is_ok_def from_utf8_lossy_id validate_wildcard_pattern_Inr [symmetric] split: sum.split)

lemma patterns_conflict_eq:
  "is_utf8 p \<Longrightarrow> is_utf8 q \<Longrightarrow>
   patterns_conflict_bytes p q = Inr b \<longleftrightarrow> pattern_spec p \<and> pattern_spec q \<and> compare_segments_bytes p q True = b"
  by (auto simp: patterns_conflict_bytes_def from_utf8_lossy_id validate_wildcard_pattern_Inr [symmetric]
      split: sum.split)

lemmas pattern_test_eval = matching_def not_matching_def rejecting_def matches_eq patterns_conflict_eq pattern_spec_def segments_ok_def
  plain_segment_def compare_segments_bytes_def star_defs COLON_def split_on_eval

lemma pattern_tests_pass:
  "exact_match" "length_mismatch" "empty_strings" "single_segment_wildcard" "multi_segment_wildcard"
  "star_and_starstar_combined" "invalid_patterns"
  by (simp_all add: exact_match_def length_mismatch_def empty_strings_def single_segment_wildcard_def
      multi_segment_wildcard_def star_and_starstar_combined_def invalid_patterns_def pattern_test_eval
      del: split_on.simps(2))

lemmas registry_test_eval = dummy_slot_def create_dummy_sender_def dummy_factory_def new_exclusive_def
  second_registry_def create_channel_def chan_alloc_def chan_drop_rx_def slot_new_def fresh_def bq_ops_def
  MAX_PERMITS_def lookup_def lookup_route_def has_route_def has_local_def find_route_def delete_route_def
  remove_slot_def assertion_defs Let_def registry_eval split_on_eval from_utf8_lossy_id factory_calls_def
  get_existing_or_register_def

lemma registry_tests_pass:
  "test_register_lookup_and_unregister std_deps = Some ()"
  "test_conflict_exact_vs_wildcard std_deps = Some ()"
  "test_lookup_priority_exact_over_wildcard std_deps = Some ()"
  "test_get_existing_or_register_atomic std_deps = Some ()"
  "test_unregister_with_wrong_slot_is_noop std_deps = Some ()"
  by (simp_all add: test_register_lookup_and_unregister_def test_conflict_exact_vs_wildcard_def
      test_lookup_priority_exact_over_wildcard_def test_get_existing_or_register_atomic_def
      test_unregister_with_wrong_slot_is_noop_def registry_test_eval
      del: split_on.simps(2) from_utf8_lossy.simps(2))

section \<open>Races\<close>

lemma race_taken:
  assumes "check_address_free (d_radix E) (inner w) a = Inr (Duplicate t)"
  shows "race E a fs w = Some (replicate (length fs) (Inr (AlreadyExists t)), w)"
  using assms by (induction fs) (simp_all add: get_existing_or_register_def)

lemma race_free:
  assumes "route_radix (d_radix E)" and "registry_ok (d_radix E) (inner w)" and "is_wildcard a \<longrightarrow> pattern_spec a"
    and "check_address_free (d_radix E) (inner w) a = Inr NotFound" and "f w = Some (Inr t, w1)"
  shows "race E a (f # fs) w = Some (Inr (Registered t) # replicate (length fs) (Inr (AlreadyExists t)),
    w1\<lparr>inner := insert_route (d_radix E) a t (inner w)\<rparr>)"
proof -
  let ?w2 = "w1\<lparr>inner := insert_route (d_radix E) a t (inner w)\<rparr>"
  have "find_route (d_radix E) a (inner ?w2) = Some t"
    using route_radix.find_route_insert [OF assms(1,2,4)] by simp
  then have "race E a fs ?w2 = Some (replicate (length fs) (Inr (AlreadyExists t)), ?w2)"
    using race_taken route_radix.duplicate_find_route [OF assms(1)] assms(3) by blast
  then show ?thesis using assms(4,5) by (simp add: get_existing_or_register_def)
qed

text \<open>
  C14. One registration wins. When calls of \<open>get_existing_or_register\<close> race for an address that no
  subscription receives, the first to take the lock registers the target its factory makes and every
  other call returns that same target. The other factories are not run: the outcome is the same
  whatever they would do, a panic included.
\<close>

theorem concurrent_registration_once:
  assumes "route_radix (d_radix E)" and "registry_reachable E w" and "concrete a" and "\<not> has_route E a w"
    and "f w = Some (Inr t, w1)"
  shows "\<exists>w'. race E a (f # fs) w =
      Some (Inr (Registered t) # replicate (length fs) (Inr (AlreadyExists t)), w') \<and>
    routes E w' = (routes E w)(a \<mapsto> t) \<and> w' = w1\<lparr>inner := inner w'\<rparr>"
proof -
  note ok = registry_reachable_ok [OF assms(1,2)]
  have f: "check_address_free (d_radix E) (inner w) a = Inr NotFound"
    using route_radix.check_free_concrete [OF assms(1) ok assms(3)] assms(4) by (simp add: has_route_def lookup_def)
  have "\<not> is_wildcard a" using assms(3) by (simp add: concrete_def is_wildcard_def)
  then have "race E a (f # fs) w = Some (Inr (Registered t) # replicate (length fs) (Inr (AlreadyExists t)),
      w1\<lparr>inner := insert_route (d_radix E) a t (inner w)\<rparr>)"
    using race_free [where f = f, OF assms(1) ok _ f assms(5)] by blast
  moreover have "routes E (w1\<lparr>inner := insert_route (d_radix E) a t (inner w)\<rparr>) = (routes E w)(a \<mapsto> t)"
    using route_radix.find_route_insert [OF assms(1) ok f] by (auto simp: routes_def fun_eq_iff)
  ultimately show ?thesis by simp
qed

text \<open>The test with its hundred threads is an instance.\<close>

lemma race_test_passes: "test_get_existing_or_register_concurrent_race std_deps = Some ()"
proof -
  let ?a = "ascii ''arcella:lb:race_test''" and ?R = "d_radix std_deps"
  let ?w1 = "snd (the (dummy_factory std_deps w_empty))"
  have w: "\<not> is_wildcard ?a" by (simp add: is_wildcard_def STAR_def)
  have f: "dummy_factory std_deps w_empty = Some (Inr (Single 1), ?w1)" "next_id ?w1 = 2"
    by (simp_all add: registry_test_eval)
  have n: "check_address_free ?R (inner w_empty) ?a = Inr NotFound"
    by (simp add: registry_eval split_on_eval del: split_on.simps(2))
  have "race std_deps ?a (replicate (Suc 99) (dummy_factory std_deps)) w_empty =
      Some (Inr (Registered (Single 1)) # replicate 99 (Inr (AlreadyExists (Single 1))),
        ?w1\<lparr>inner := insert_route ?R ?a (Single 1) (inner w_empty)\<rparr>)"
    unfolding replicate_Suc
    using race_free [where f = "dummy_factory std_deps", OF std_route_radix registry_reachable_ok [OF std_route_radix w_empty_reachable] _ n f(1), of "replicate 99 (dummy_factory std_deps)"] w by simp
  then show ?thesis
    unfolding test_get_existing_or_register_concurrent_race_def Let_def numeral_eq_Suc
    by (simp add: factory_calls_def f(2) assertion_defs list_all_iff)
qed

theorem concurrent_registration_once_witness:
  "\<exists>w'. race std_deps (ascii ''a:b'') [sample_factory, \<lambda>_. None] w_empty =
     Some ([Inr (Registered (Single 0)), Inr (AlreadyExists (Single 0))], w')"
proof -
  have "\<not> has_route std_deps (ascii ''a:b'') w_empty"
    by (simp add: has_route_def lookup_def lookup_route_def registry_eval)
  moreover have "sample_factory w_empty = Some (Inr (Single 0), fresh w_empty)"
    by (simp add: sample_factory_def world_new_def)
  ultimately show ?thesis
    using concurrent_registration_once [OF std_route_radix w_empty_reachable ab_concrete, of sample_factory "Single 0"
        "fresh w_empty" "[\<lambda>_. None]"] by auto
qed

end
