(* ===== verification/Client_Tests.thy ===== *)
theory Client_Tests
  imports Tests
begin

text \<open>
  The tests of \<open>client/mod.rs\<close>, with the helpers of \<open>test_utils.rs\<close>, translated and evaluated.
\<close>

section \<open>Helpers\<close>

definition test_client ::
    "('t, 'c, 'd, 'o) deps \<Rightarrow> bytes \<Rightarrow> ('t, 'c, 'd, 'o) world \<Rightarrow>
     ((broker_error + client) \<times> ('t, 'c, 'd, 'o) world) option" where
  "test_client E addr w =
     (let (broker, reg) = broker_new E broker_config_default
      in broker_client E broker client_config_default addr (broker_world reg w))"

definition dummy_in_only_message :: "bytes \<Rightarrow> bytes \<Rightarrow> bytes \<Rightarrow> message option" where
  "dummy_in_only_message mt addr pay =
     unwrap (message_new InOnly (replicate 32 0) (replicate 16 1) (replicate 4 0) 0 64 mt addr [] pay)"

definition dummy_in_out_message :: "bytes \<Rightarrow> bytes \<Rightarrow> bytes \<Rightarrow> bytes \<Rightarrow> message option" where
  "dummy_in_out_message mt addr rt pay =
     unwrap (message_new InOut (replicate 32 0) (replicate 16 1) (replicate 4 0) 0 64 mt addr rt pay)"

text \<open>
  \<^verbatim>\<open>test_client("test".to_string()).unwrap()\<close>, \<^verbatim>\<open>client.subscribe(..).expect(..)\<close> with the default
  configuration, \<^verbatim>\<open>client.send(..).await\<close> that succeeds, and \<^verbatim>\<open>subscriber.recv().await.unwrap()\<close>.
\<close>

definition test_start :: "('t, 'c, 'd, 'o) deps \<Rightarrow> ('t, 'c, 'd, 'o) world option" where
  "test_start E = do {
     (client, w) \<leftarrow> test_client E (ascii ''test'') (world_new E);
     unwrap client;
     Some w
   }"

definition expect_subscribe ::
    "('t, 'c, 'd, 'o) deps \<Rightarrow> bytes \<Rightarrow> ('t, 'c, 'd, 'o) world \<Rightarrow>
     (subscriber \<times> subscription_handle \<times> ('t, 'c, 'd, 'o) world) option" where
  "expect_subscribe E addr w = do {
     (r, w') \<leftarrow> subscribe E addr subscriber_config_default w;
     (sub, h) \<leftarrow> unwrap r;
     Some (sub, h, w')
   }"

definition send_ok ::
    "('t, 'c, 'd, 'o) deps \<Rightarrow> message \<Rightarrow> ('t, 'c, 'd, 'o) world \<Rightarrow> ('t, 'c, 'd, 'o) world option" where
  "send_ok E m w = do {
     r \<leftarrow> await (client_send E m w);
     unwrap r
   }"

definition send_err :: "('t, 'c, 'd, 'o) deps \<Rightarrow> message \<Rightarrow> ('t, 'c, 'd, 'o) world \<Rightarrow> transport_error option" where
  "send_err E m w = do {
     r \<leftarrow> await (client_send E m w);
     case r of Inl e \<Rightarrow> Some e | Inr _ \<Rightarrow> None
   }"

definition recv_some ::
    "('t, 'c, 'd, 'o) deps \<Rightarrow> subscriber \<Rightarrow> ('t, 'c, 'd, 'o) world \<Rightarrow>
     (message \<times> ('t, 'c, 'd, 'o) world) option" where
  "recv_some E sub w = do {
     let (q, pc, w') = recv_poll E sub RecvStart w;
     r \<leftarrow> await q;
     m \<leftarrow> r;
     Some (m, w')
   }"

section \<open>Tests\<close>

definition test_in_memory_message_delivery_in_only :: "('t, 'c, 'd, 'o) deps \<Rightarrow> unit option" where
  "test_in_memory_message_delivery_in_only E = do {
     w \<leftarrow> test_start E;
     let target_address = ascii ''arcella:core:test:receiver'';
     (sub, handle, w) \<leftarrow> expect_subscribe E target_address w;
     original \<leftarrow> dummy_in_only_message (ascii ''test:ping'') target_address (ascii ''hello from sender'');
     w \<leftarrow> send_ok E original w;
     (received, w) \<leftarrow> recv_some E sub w;
     assert (original = received)
   }"

definition test_in_memory_message_delivery_to_unknown_address :: "('t, 'c, 'd, 'o) deps \<Rightarrow> unit option" where
  "test_in_memory_message_delivery_to_unknown_address E = do {
     w \<leftarrow> test_start E;
     msg \<leftarrow> dummy_in_only_message (ascii ''test:ping'') (ascii ''arcella:unknown:address'') [];
     e \<leftarrow> send_err E msg w;
     assert (case e of RecipientNotFound _ \<Rightarrow> True | _ \<Rightarrow> False)
   }"

text \<open>The loops over the vectors of the routing test.\<close>

fun subscribe_all ::
    "('t, 'c, 'd, 'o) deps \<Rightarrow> bytes list \<Rightarrow> ('t, 'c, 'd, 'o) world \<Rightarrow>
     (subscriber list \<times> ('t, 'c, 'd, 'o) world) option" where
  "subscribe_all E [] w = Some ([], w)"
| "subscribe_all E (addr # addrs) w = do {
     (sub, h, w) \<leftarrow> expect_subscribe E addr w;
     (subs, w) \<leftarrow> subscribe_all E addrs w;
     Some (sub # subs, w)
   }"

fun send_all ::
    "('t, 'c, 'd, 'o) deps \<Rightarrow> (bytes \<times> bytes \<times> bytes) list \<Rightarrow> ('t, 'c, 'd, 'o) world \<Rightarrow>
     ('t, 'c, 'd, 'o) world option" where
  "send_all E [] w = Some w"
| "send_all E ((addr, mt, pay) # ms) w = do {
     msg \<leftarrow> dummy_in_only_message mt addr pay;
     w \<leftarrow> send_ok E msg w;
     send_all E ms w
   }"

fun recv_all ::
    "('t, 'c, 'd, 'o) deps \<Rightarrow> subscriber \<Rightarrow> (bytes \<times> bytes) list \<Rightarrow> ('t, 'c, 'd, 'o) world \<Rightarrow>
     ('t, 'c, 'd, 'o) world option" where
  "recv_all E sub [] w = Some w"
| "recv_all E sub ((mt, pay) # ms) w = do {
     (m, w) \<leftarrow> recv_some E sub w;
     assert (msg_type m = mt);
     assert (payload m = pay);
     recv_all E sub ms w
   }"

definition test_multi_recipient_routing :: "('t, 'c, 'd, 'o) deps \<Rightarrow> unit option" where
  "test_multi_recipient_routing E = do {
     w \<leftarrow> test_start E;
     let users = ascii ''arcella:core:users'';
     let api = ascii ''arcella:web:api'';
     let processor = ascii ''arcella:batch:processor'';
     (subs, w) \<leftarrow> subscribe_all E [users, api, processor] w;
     w \<leftarrow> send_all E
       [(users, ascii ''user:created'', ascii ''user1''), (api, ascii ''http:request'', ascii ''GET /api''),
        (processor, ascii ''batch:job'', ascii ''job1''), (users, ascii ''user:updated'', ascii ''user2''),
        (api, ascii ''http:response'', ascii ''200 OK''), (processor, ascii ''batch:complete'', ascii ''job1:done''),
        (users, ascii ''user:deleted'', ascii ''user3'')] w;
     w \<leftarrow> recv_all E (subs ! 0) [(ascii ''user:created'', ascii ''user1''), (ascii ''user:updated'', ascii ''user2''),
       (ascii ''user:deleted'', ascii ''user3'')] w;
     w \<leftarrow> recv_all E (subs ! 1) [(ascii ''http:request'', ascii ''GET /api''), (ascii ''http:response'', ascii ''200 OK'')] w;
     w \<leftarrow> recv_all E (subs ! 2) [(ascii ''batch:job'', ascii ''job1''), (ascii ''batch:complete'', ascii ''job1:done'')] w;
     let (r, w) = subscriber_try_recv E (subs ! 0) w;
     assert (\<not> is_ok r);
     let (r, w) = subscriber_try_recv E (subs ! 1) w;
     assert (\<not> is_ok r);
     let (r, w) = subscriber_try_recv E (subs ! 2) w;
     assert (\<not> is_ok r)
   }"

definition test_dynamic_registration :: "('t, 'c, 'd, 'o) deps \<Rightarrow> unit option" where
  "test_dynamic_registration E = do {
     w \<leftarrow> test_start E;
     let addr = ascii ''arcella:test'';
     msg \<leftarrow> dummy_in_only_message (ascii ''test'') addr [];
     e \<leftarrow> send_err E msg w;
     (sub, handle, w) \<leftarrow> expect_subscribe E addr w;
     w \<leftarrow> send_ok E msg w;
     (m, w) \<leftarrow> recv_some E sub w;
     let w = handle_drop E handle w;
     msg2 \<leftarrow> dummy_in_only_message (ascii ''test2'') addr [];
     e \<leftarrow> send_err E msg2 w;
     Some ()
   }"

definition test_subscription_cleanup_and_re_registration :: "('t, 'c, 'd, 'o) deps \<Rightarrow> unit option" where
  "test_subscription_cleanup_and_re_registration E = do {
     w \<leftarrow> test_start E;
     let addr = ascii ''arcella:test:duplicate'';
     (sub1, hdl1, w) \<leftarrow> expect_subscribe E addr w;
     (sub2_result, w) \<leftarrow> subscribe E addr subscriber_config_default w;
     assert (case sub2_result of Inl (AddressAlreadyOccupied _) \<Rightarrow> True | _ \<Rightarrow> False);
     let w = handle_drop E hdl1 w;
     (sub3, hdl3, w) \<leftarrow> expect_subscribe E addr w;
     msg \<leftarrow> dummy_in_only_message (ascii ''test'') addr (ascii ''hello'');
     w \<leftarrow> send_ok E msg w;
     let (r, w) = subscriber_try_recv E sub3 w;
     assert (is_ok r)
   }"

section \<open>The tests pass\<close>

text \<open>The messages of the tests, kept folded while the tests are evaluated.\<close>

definition in_only :: "bytes \<Rightarrow> bytes \<Rightarrow> bytes \<Rightarrow> message" where
  "in_only mt a p = new_message InOnly (replicate 32 0) (replicate 16 1) (replicate 4 0) 0 64 mt a [] p"

lemma in_only_simps [simp]:
  "address (in_only mt a p) = a" "msg_type (in_only mt a p) = mt" "payload (in_only mt a p) = p"
  by (simp_all add: in_only_def new_message_def)

lemma dummy_in_only_eq:
  assumes "new_request_ok InOnly mt a [] p"
  shows "dummy_in_only_message mt a p = Some (in_only mt a p)"
  using message_new_accept [OF assms] by (simp add: dummy_in_only_message_def in_only_def unwrap_def)

lemmas client_test_eval = test_start_def test_client_def broker_new_def broker_world_def broker_client_def client_new_def
  expect_subscribe_def subscribe_def bind_exclusive_def reply_dispatcher_new_def send_ok_def send_err_def
  recv_some_def client_send_def transport_send_def in_memory_def resolve_def endpoint_new_def endpoint_send_def
  target_send_def slot_send_def chan_send_def sender_send_def recv_poll_def receiver_recv_def
  subscriber_try_recv_def receiver_try_recv_def handle_drop_def mark_removed_def chan_drop_tx_def from_utf8_def
  subscriber_config_default_def client_config_default_def config_consts dummy_in_only_eq new_request_ok_def
  address_spec_def segment_byte_def is_ascii_alphanumeric_def protocol_consts

lemma client_tests_pass:
  "test_in_memory_message_delivery_to_unknown_address std_deps = Some ()"
  "test_in_memory_message_delivery_in_only std_deps = Some ()"
  "test_dynamic_registration std_deps = Some ()"
  "test_subscription_cleanup_and_re_registration std_deps = Some ()"
  by (simp_all add: test_in_memory_message_delivery_to_unknown_address_def
      test_in_memory_message_delivery_in_only_def test_dynamic_registration_def
      test_subscription_cleanup_and_re_registration_def client_test_eval registry_test_eval
      del: split_on.simps(2) from_utf8_lossy.simps(2))

lemma routing_test_passes: "test_multi_recipient_routing std_deps = Some ()"
  by (simp add: test_multi_recipient_routing_def client_test_eval registry_test_eval
      del: split_on.simps(2) from_utf8_lossy.simps(2))

lemma in_out_message: "dummy_in_out_message (ascii ''t'') (ascii ''a:b'') (ascii ''r'') [] \<noteq> None"
  by (simp add: dummy_in_out_message_def message_new_accept client_test_eval unwrap_def split_on_eval COLON_def del: split_on.simps(2))

end
