(* ===== verification/Spec2Isabelle.thy ===== *)
theory Spec2Isabelle
  imports Load Queues Client_Tests
begin

text \<open>
  \<^bold>\<open>A verification of the Arcella message broker\<close> (\<^verbatim>\<open>src/src\<close>).

  The broker runs inside one process. A \<^verbatim>\<open>Broker\<close> (\<^verbatim>\<open>broker/mod.rs\<close>) holds a configuration and a
  \<^verbatim>\<open>LocalRegistry\<close> (\<^verbatim>\<open>broker_core/registry/mod.rs\<close>) that binds addresses and wildcard patterns to route
  targets (\<^verbatim>\<open>routing.rs\<close>): a \<^verbatim>\<open>SubscriptionSlot\<close> (\<^verbatim>\<open>slot.rs\<close>) for an exclusive subscription, or a
  \<^verbatim>\<open>LoadBalancedGroup\<close> (\<^verbatim>\<open>load_balanced_group.rs\<close>) whose dispatcher task serves consumers that ask for
  messages. A \<^verbatim>\<open>BrokerClient\<close> (\<^verbatim>\<open>client/mod.rs\<close>) subscribes, sends and makes requests; a \<^verbatim>\<open>Publisher\<close>
  (\<^verbatim>\<open>client/publisher.rs\<close>) caches the endpoint of one address; a \<^verbatim>\<open>Subscriber\<close> and its
  \<^verbatim>\<open>SubscriptionHandle\<close> (\<^verbatim>\<open>client/subscriber.rs\<close>) receive and release; a \<^verbatim>\<open>ReplyDispatcher\<close>
  (\<^verbatim>\<open>client/reply_dispatcher.rs\<close>) matches replies with waiting requests. Messages travel through bounded
  channels (\<^verbatim>\<open>transport/channel.rs\<close>) behind the in-memory transport (\<^verbatim>\<open>transport/in_memory.rs\<close>), and
  have a binary form (\<^verbatim>\<open>protocol/mod.rs\<close>).

  \<^bold>\<open>How the program is modelled.\<close> Shared objects live in one explicit store, the record \<open>world\<close> of theory
  \<open>World\<close>: channels, request channels, reply cells, slots, groups, dispatcher tasks, reply dispatchers and
  the registry, each under an identifier that stands for the \<^verbatim>\<open>Arc\<close>. Operations are functions on that
  store, with the names of the source; a \<^verbatim>\<open>Result\<close> is a sum with the error on the left, a panic is \<open>None\<close>
  (\<open>Panic\<close> in theory \<open>Process\<close>), and an \<^verbatim>\<open>.await\<close> is a value of type \<open>poll\<close>. A task or a call in flight is
  the place where it is suspended, advanced by a step function. Machine integers keep their width.

  Code outside the repository is a parameter: the record \<open>deps\<close> has the operations of the \<^verbatim>\<open>tokio\<close> channels
  (message and request channels), of oneshot cells and of the radix tree, and buffers are parameters of
  the codec. Their documented behaviour is stated as locales, \<open>mpsc\<close>, \<open>oneshot\<close>, \<open>radix\<close> and \<open>route_radix\<close>,
  \<open>buf\<close> and \<open>buf_mut\<close>, joined in \<open>env\<close>, and each is interpreted on an instance (bounded queues, cells,
  association lists, byte lists), which also gives the concrete states of the witnesses. The locale
  \<open>transport\<close> is the contract between publishers and a transport; \<open>in_memory\<close> satisfies it by a sublocale.

  \<^bold>\<open>Theories.\<close>
  \<^item> \<open>Prelude\<close>, \<open>Utf8\<close>: shared types, byte strings, readers with errors, segments; UTF-8 validation.
  \<^item> \<open>Buffers\<close>, \<open>Protocol\<close>: \<^verbatim>\<open>protocol/mod.rs\<close>. Headers, messages, address validation, encoding and decoding
    over any buffer: both round trips, totality, prefixes, and what \<^verbatim>\<open>Message::new\<close> accepts.
  \<^item> \<open>Wildcard\<close>: patterns of \<^verbatim>\<open>registry/mod.rs\<close>. The comparison loop decides matching and overlap.
  \<^item> \<open>Channel\<close>, \<open>Load\<close>: \<^verbatim>\<open>transport/channel.rs\<close>. The wrappers and their errors; the utilization ratio with
    its rounding to double precision.
  \<^item> \<open>Config\<close>: \<^verbatim>\<open>config/mod.rs\<close>, and the configurations the builders can produce.
  \<^item> \<open>Radix\<close>, \<open>World\<close>, \<open>Routing\<close>: the tree interface, the store, slots, targets and groups.
  \<^item> \<open>Registry\<close>, \<open>Registry_Spec\<close>: registration, deregistration and lookup, the invariant, and their refinement
    of a map from keys to targets (\<open>routes\<close>); \<open>covers\<close> says which keys really receive an address.
  \<^item> \<open>Environment\<close>: the contract of all dependencies at once.
  \<^item> \<open>Transport\<close>: \<^verbatim>\<open>transport/mod.rs\<close> and \<^verbatim>\<open>in_memory.rs\<close>. Every outcome of a send, and that an endpoint which
    passes its validity check is current.
  \<^item> \<open>Dispatcher\<close>: the dispatcher task, its deliveries, its end and its abort.
  \<^item> \<open>Replies\<close>, \<open>Requests\<close>: waiters, the listener task and the request call in all its stages.
  \<^item> \<open>Publisher\<close>: the cache is invisible, also when other tasks run between its critical sections
    (\<open>publisher_interleaved\<close>).
  \<^item> \<open>Client\<close>: handles, subscribers, subscriptions, clients and the broker.
  \<^item> \<open>Process\<close>: the process as a transition system. \<open>process_step\<close> is one step of any task, with the lock of
    the registry and its poisoning visible, over the store and the values callers hold. \<open>Process_Inv\<close>,
    \<open>Process_Tasks\<close>, \<open>Process_Drops\<close> and \<open>Process_Create\<close> prove its invariant: who owns which sender,
    receiver, route and reference count. \<open>Process_Props\<close> and \<open>Queues\<close> draw the consequences: routes live
    exactly as long as their handles, live subscriptions are served, counts are exact, queues lose
    nothing under any interleaving, receive loops end, dispatchers never spin, and what a panic under the
    lock does.
  \<^item> \<open>Tests\<close>, \<open>Client_Tests\<close>: the unit tests of the repository, translated and proved to pass on the
    instances of the dependencies, and the race on one address for any number of calls.
  \<^item> This theory: the properties that span components.

  \<^bold>\<open>Bounds.\<close> Versions are 64-bit and wrap: a cached endpoint is shown current as long as its version was
  incremented fewer than \<open>2 ^ 64\<close> times since it was resolved. The consumer count of a group is exact modulo
  \<open>2 ^ 64\<close>. The accuracy of the utilization ratio is shown for capacities up to \<open>2 ^ 53\<close>; the builders allow
  65536. One definition has fuel: a dispatcher that ends drains its request channel with as many receives as
  the channel has capacity (\<open>drain_tokens\<close>), which is the most it can hold. Other loops recurse on lists, and
  \<open>receive_loop\<close>, which may wait for ever, is a partial function that is shown to return once its channel has no
  sender.

  \<^bold>\<open>Simplifications.\<close> One process has one broker, and its registry outlives the tasks. Calls run without
  interruption up to the \<^verbatim>\<open>.await\<close> at which they wait or, for a load-balanced subscription and the publisher's
  cache, between their critical sections; the reads of the registry are of one snapshot, as with
  \<^verbatim>\<open>ArcSwap\<close>. A send that waits on a full queue holds a reference to the sender in the program, which the
  count of senders leaves out: the channel may close later than in the model. Dropping an \<^verbatim>\<open>Arc\<close> is a step that
  is possible once no counted owner is left.

  \<^bold>\<open>Not modelled.\<close> Serialisation of configurations (serde), logging (tracing), the command line
  (\<^verbatim>\<open>bin/arcella-broker.rs\<close> parses its arguments and returns), the empty server module, module declarations, and the
  timing of the load test. Deadlines are a flag that says whether they have passed.
\<close>

section \<open>Request and reply across the broker\<close>

text \<open>
  C4. A reply finds its request through the whole broker: while a request of a client waits, a message
  with the request's identifier sent by anyone to the client's address is accepted, passes through
  the client's reply channel and listener in two steps, and is what the request returns.
\<close>

theorem request_roundtrip:
  assumes "env E queue cap txs rx rqueue rcap rtxs rrx cstate" and "registry_reachable E w"
    and "replies_reachable E cstate (rq_dispatcher rq) w"
    and "is_utf8 (address response)" and "concrete (address response)"
    and "routes E w (address response) = Some (Single s)" and "slot_sender (slots w s) = Some ch"
    and "chans w ch = Some c" and "rx c" and "queue c = []" and "0 < cap c"
    and "rd_chan (dispatchers w (rq_dispatcher rq)) = ch" and "rd_pc (dispatchers w (rq_dispatcher rq)) = Listening"
    and "map_of (rd_waiters (dispatchers w (rq_dispatcher rq))) (rq_id rq) = Some (rq_cell rq)"
    and "oneshots w (rq_cell rq) = Some cell" and "cstate cell = OsWait" and "rq_pc rq = ReqWaiting"
    and "message_id (header response) = rq_id rq"
  shows "\<exists>w1 w2 w3. client_send E response w = Ready (Inr w1) \<and>
    listener_step E (rq_dispatcher rq) w1 = Some w2 \<and> listener_step E (rq_dispatcher rq) w2 = Some w3 \<and>
    fst (request_poll E (in_memory E) elapsed rq w3) = Done (Inr response)"
proof -
  let ?r = "rq_dispatcher rq"
  note cells = env.axioms(3) [OF assms(1)]
  have "covers (address response) (address response)"
    using assms(5) by (simp add: covers_def concrete_wildcard)
  then obtain c1 where s: "client_send E response w = Ready (Inr (w\<lparr>chans := (chans w)(ch \<mapsto> c1)\<rparr>))"
      "queue c1 = [response]" "rx c1"
    using env.send_to_slot [OF assms(1,2,5,4,6) _ assms(7,8,9)] assms(10,11) by (metis append_Nil list.size(3))
  let ?w1 = "w\<lparr>chans := (chans w)(ch \<mapsto> c1)\<rparr>"
  obtain c2 where c2: "receiver_recv (d_msgs E) c1 = Ready (Some (response, c2))"
    using mpsc.mp_recv_item [OF env.axioms(1) [OF assms(1)] s(3,2)] by (auto simp: receiver_recv_def)
  let ?w2 = "upd_dispatcher ?r (\<lambda>d. d\<lparr>rd_pc := Dispatching response\<rparr>) (?w1\<lparr>chans := (chans ?w1)(ch \<mapsto> c2)\<rparr>)"
  have l2: "listener_step E ?r ?w1 = Some ?w2"
    using assms(12,13) c2 by (simp add: listener_step_def)
  have "replies_reachable E cstate ?r ?w2"
    by (rule rr_step [OF rr_step [OF assms(3) rs_other] rs_listen [OF l2]]) simp_all
  moreover have "rd_pc (dispatchers ?w2 ?r) = Dispatching response" by (simp add: frame_simps)
  moreover have "map_of (rd_waiters (dispatchers ?w2 ?r)) (message_id (header response)) = Some (rq_cell rq)"
    using assms(14,18) by (simp add: frame_simps)
  moreover have "oneshots ?w2 (rq_cell rq) = Some cell" using assms(15) by (simp add: frame_simps)
  ultimately obtain w3 cell' where w3: "listener_step E ?r ?w2 = Some w3"
      "oneshots w3 (rq_cell rq) = Some cell'" "cstate cell' = OsFull response"
    using env.listener_dispatch [OF assms(1), of ?r ?w2 response] assms(16) by auto
  have "fst (request_poll E (in_memory E) elapsed rq w3) = Done (Inr response)"
    using w3 assms(17) oneshot.os_poll_full [OF cells w3(3)] by (simp add: request_poll_def request_await_def)
  with s(1) l2 w3(1) show ?thesis by blast
qed

theorem request_roundtrip_witness:
  "\<exists>w1 w2 w3. client_send std_deps ab_message w_waiting = Ready (Inr w1) \<and>
     listener_step std_deps 2 w1 = Some w2 \<and> listener_step std_deps 2 w2 = Some w3 \<and>
     fst (request_poll std_deps (in_memory std_deps) False sample_request w3) = Done (Inr ab_message)"
proof -
  have f: "rq_dispatcher sample_request = 2" "rq_id sample_request = sample_id"
      "rq_cell sample_request = 3" "rq_pc sample_request = ReqWaiting"
    by (simp_all add: sample_request_def)
  have i: "inner w_waiting = inner w_sub" "slots w_waiting = slots w_sub"
    by (simp_all add: w_waiting_def register_waiter_def w_replies_def reply_dispatcher_new_def frame_simps
        fresh_def Let_def)
  have r: "registry_reachable std_deps w_waiting" by (rule reach_step [OF w_sub_reachable step_other [OF i(1)]])
  have t: "routes std_deps w_waiting (address ab_message) = Some (Single 1)"
    using w_sub_eval(2) i(1) by (simp add: routes_def)
  have sl: "slot_sender (slots w_waiting 1) = Some 0" using w_sub_eval(3) i(2) by simp
  have ch: "chans w_waiting 0 = Some \<lparr>bq_items = [], bq_cap = 2, bq_txs = 1, bq_rx = True\<rparr>"
    using w_sub_eval(4) w_waiting_eval(4) by simp
  show ?thesis
    using request_roundtrip [OF std.env_axioms r, of sample_request ab_message 1 0, unfolded f,
        OF w_waiting_reachable ab_utf8 t sl ch]
    by (simp add: w_waiting_eval)
qed

end
